theory Spec2Isabelle
  imports Complex_Main "HOL-Library.Log_Nat"
begin

section \<open>JavaScript values used by the planner\<close>

text \<open>
  A TypeScript \<open>number\<close> is \<open>NaN\<close>, a finite value or one of the two infinities. Finite
  values are embedded in the rationals; both zeros are \<open>Fin 0\<close>. An optional number
  (\<open>number | undefined\<close>, or an absent property) is a \<open>number option\<close> with \<open>None\<close> for
  \<open>undefined\<close>.
\<close>

datatype number = NaN | Fin rat | PosInf | NegInf

text \<open>Truthiness of a number: \<open>NaN\<close> and zero are falsy.\<close>

fun truthy :: "number \<Rightarrow> bool" where
  "truthy NaN = False"
| "truthy (Fin r) = (r \<noteq> 0)"
| "truthy PosInf = True"
| "truthy NegInf = True"

text \<open>Truthiness of \<open>number | undefined\<close>: \<open>undefined\<close> is falsy.\<close>

fun truthy_opt :: "number option \<Rightarrow> bool" where
  "truthy_opt None = False"
| "truthy_opt (Some n) = truthy n"

text \<open>The relational operator \<open><\<close> on numbers: any comparison with \<open>NaN\<close> is false.\<close>

fun js_lt :: "number \<Rightarrow> number \<Rightarrow> bool" where
  "js_lt (Fin a) (Fin b) = (a < b)"
| "js_lt (Fin a) PosInf = True"
| "js_lt NegInf (Fin b) = True"
| "js_lt NegInf PosInf = True"
| "js_lt _ _ = False"

text \<open>Strict equality \<open>===\<close> between a number and a possibly undefined number.\<close>

fun strict_eq :: "number \<Rightarrow> number option \<Rightarrow> bool" where
  "strict_eq (Fin a) (Some (Fin b)) = (a = b)"
| "strict_eq PosInf (Some PosInf) = True"
| "strict_eq NegInf (Some NegInf) = True"
| "strict_eq _ _ = False"

text \<open>
  \<open>ToLength\<close>, as \<open>Array.from({ length: days }, ...)\<close> applies it: \<open>NaN\<close> becomes 0, any
  other value is truncated and clamped to \<open>0 .. 2^53 - 1\<close>.
\<close>

fun toLength :: "number \<Rightarrow> int" where
  "toLength NaN = 0"
| "toLength (Fin r) = min (max 0 \<lfloor>r\<rfloor>) 9007199254740991"
| "toLength PosInf = 9007199254740991"
| "toLength NegInf = 0"

datatype js_error = RangeError

text \<open>
  \<open>Array.from\<close> calls the mapping function index by index; the first exception ends the call.
\<close>

fun mapResult :: "('a \<Rightarrow> 'e + 'b) \<Rightarrow> 'a list \<Rightarrow> 'e + 'b list" where
  "mapResult f [] = Inr []"
| "mapResult f (x # xs) =
     (case f x of
        Inl e \<Rightarrow> Inl e
      | Inr y \<Rightarrow> (case mapResult f xs of Inl e \<Rightarrow> Inl e | Inr ys \<Rightarrow> Inr (y # ys)))"

section \<open>Addition of numbers\<close>

text \<open>
  The finite numbers are the double-precision values of IEEE 754: the rationals
  \<open>m * 2^e\<close> with \<open>\<bar>m\<bar> < 2^53\<close> and \<open>-1074 \<le> e \<le> 971\<close>. ECMA-262 defines the sum of two
  finite numbers as ``the Number value for'' their exact sum: the nearest such value, the
  one with the even significand of two that are equally near, and an infinity where that
  value would be of magnitude \<open>2^1024\<close>.
\<close>

text \<open>For \<open>r > 0\<close>, the exponent \<open>e\<close> with \<open>2^e \<le> r < 2^(e+1)\<close>.\<close>

definition floorLog2 :: "rat \<Rightarrow> int" where
  "floorLog2 r = (let (a, b) = quotient_of r; e = bitlen a - bitlen b
                  in if 2 powi e \<le> r then e else e - 1)"

text \<open>The integer nearest to \<open>x\<close>, the even one of two that are equally near.\<close>

definition roundHalfEven :: "rat \<Rightarrow> int" where
  "roundHalfEven x = (let f = \<lfloor>x\<rfloor>; d = x - of_int f
                      in if d < 1 / 2 then f else if 1 / 2 < d then f + 1
                         else if even f then f else f + 1)"

text \<open>
  The Number value for \<open>r\<close>: \<open>r\<close> is rounded to a multiple of \<open>2^q\<close>, the unit in the last
  of the 53 binary places of \<open>r\<close>, and not less than \<open>2^-1074\<close>.
\<close>

definition NumberValue :: "rat \<Rightarrow> number" where
  "NumberValue r =
     (if r = 0 then Fin 0
      else let q = max (floorLog2 \<bar>r\<bar> - 52) (- 1074);
               v = of_int (roundHalfEven (\<bar>r\<bar> / 2 powi q)) * 2 powi q
           in if 2 ^ 1024 \<le> v then (if 0 < r then PosInf else NegInf)
              else Fin (if 0 < r then v else - v))"

text \<open>The operator \<open>+\<close> on two numbers.\<close>

fun js_add :: "number \<Rightarrow> number \<Rightarrow> number" where
  "js_add (Fin a) (Fin b) = NumberValue (a + b)"
| "js_add (Fin a) PosInf = PosInf"
| "js_add (Fin a) NegInf = NegInf"
| "js_add PosInf (Fin b) = PosInf"
| "js_add PosInf PosInf = PosInf"
| "js_add NegInf (Fin b) = NegInf"
| "js_add NegInf NegInf = NegInf"
| "js_add _ _ = NaN"

section \<open>The Date object\<close>

text \<open>
  \<open>buildTripDates\<close> uses \<open>new Date(string)\<close>, \<open>getTime\<close>, \<open>getDate\<close>, \<open>setDate\<close> and
  \<open>toISOString\<close>. They are modelled after the abstract operations of ECMA-262 (section
  ``Date Objects''). A time value is an integer number of milliseconds since
  1970-01-01T00:00:00Z; the value of a Date object is an \<open>int option\<close>, \<open>None\<close> for the
  invalid date (\<open>NaN\<close>).
\<close>

definition msPerDay :: int where
  "msPerDay = 86400000"

definition Day :: "int \<Rightarrow> int" where
  "Day t = t div msPerDay"

definition TimeWithinDay :: "int \<Rightarrow> int" where
  "TimeWithinDay t = t mod msPerDay"

definition DaysInYear :: "int \<Rightarrow> int" where
  "DaysInYear y =
     (if y mod 4 \<noteq> 0 then 365
      else if y mod 100 \<noteq> 0 then 366
      else if y mod 400 \<noteq> 0 then 365
      else 366)"

definition DayFromYear :: "int \<Rightarrow> int" where
  "DayFromYear y =
     365 * (y - 1970) + (y - 1969) div 4 - (y - 1901) div 100 + (y - 1601) div 400"

text \<open>
  \<open>YearFromTime(t)\<close> is the largest \<open>y\<close> with \<open>DayFromYear y \<le> Day t\<close>. It is computed by
  counting up from an estimate that is never too large (a year has at most 366 and at
  least 365 days).
\<close>

function yearSearch :: "int \<Rightarrow> int \<Rightarrow> int" where
  "yearSearch d y = (if DayFromYear (y + 1) \<le> d then yearSearch d (y + 1) else y)"
  by pat_completeness auto
termination
proof (relation "measure (\<lambda>(d, y). nat (d - DayFromYear y))")
  show "wf (measure (\<lambda>(d, y). nat (d - DayFromYear y)))" by simp
next
  fix d y :: int
  assume le: "DayFromYear (y + 1) \<le> d"
  have a: "(y - 1969) div 4 \<le> (y + 1 - 1969) div 4"
    by (intro zdiv_mono1) auto
  have "(y + 1 - 1901) div 100 \<le> (y - 1901 + 100) div 100"
    by (intro zdiv_mono1) auto
  then have b: "(y + 1 - 1901) div 100 \<le> (y - 1901) div 100 + 1"
    by simp
  have c: "(y - 1601) div 400 \<le> (y + 1 - 1601) div 400"
    by (intro zdiv_mono1) auto
  have lin: "365 * (y - 1970) + p - q + r < 365 * (y + 1 - 1970) + p' - q' + r'"
    if "p \<le> p'" "q' \<le> q + 1" "r \<le> r'" for p p' q q' r r' :: int
    using that by arith
  have "DayFromYear y < DayFromYear (y + 1)"
    unfolding DayFromYear_def by (rule lin [OF a b c])
  with le show "((d, y + 1), (d, y)) \<in> measure (\<lambda>(d, y). nat (d - DayFromYear y))"
    by simp
qed

definition YearFromTime :: "int \<Rightarrow> int" where
  "YearFromTime t =
     yearSearch (Day t) (1970 + (if 0 \<le> Day t then Day t div 366 else Day t div 365))"

definition InLeapYear :: "int \<Rightarrow> int" where
  "InLeapYear t = (if DaysInYear (YearFromTime t) = 366 then 1 else 0)"

definition DayWithinYear :: "int \<Rightarrow> int" where
  "DayWithinYear t = Day t - DayFromYear (YearFromTime t)"

definition MonthFromTime :: "int \<Rightarrow> int" where
  "MonthFromTime t =
     (let d = DayWithinYear t; l = InLeapYear t in
      if d < 31 then 0
      else if d < 59 + l then 1
      else if d < 90 + l then 2
      else if d < 120 + l then 3
      else if d < 151 + l then 4
      else if d < 181 + l then 5
      else if d < 212 + l then 6
      else if d < 243 + l then 7
      else if d < 273 + l then 8
      else if d < 304 + l then 9
      else if d < 334 + l then 10
      else 11)"

text \<open>The day within the year on which month \<open>m\<close> (0 to 11) starts; \<open>l\<close> is 1 in a leap year.\<close>

definition monthStart :: "int \<Rightarrow> int \<Rightarrow> int" where
  "monthStart l m =
     (if m = 0 then 0
      else if m = 1 then 31
      else if m = 2 then 59 + l
      else if m = 3 then 90 + l
      else if m = 4 then 120 + l
      else if m = 5 then 151 + l
      else if m = 6 then 181 + l
      else if m = 7 then 212 + l
      else if m = 8 then 243 + l
      else if m = 9 then 273 + l
      else if m = 10 then 304 + l
      else 334 + l)"

definition DateFromTime :: "int \<Rightarrow> int" where
  "DateFromTime t = DayWithinYear t - monthStart (InLeapYear t) (MonthFromTime t) + 1"

text \<open>
  \<open>MakeDay(year, month, date)\<close>: the day number of the first of the month
  \<open>(year + month div 12, month mod 12)\<close>, plus \<open>date - 1\<close>.
\<close>

definition MakeDay :: "int \<Rightarrow> int \<Rightarrow> int \<Rightarrow> int" where
  "MakeDay year month dt =
     (let ym = year + month div 12; mn = month mod 12 in
      DayFromYear ym + monthStart (if DaysInYear ym = 366 then 1 else 0) mn + dt - 1)"

definition MakeDate :: "int \<Rightarrow> int \<Rightarrow> int" where
  "MakeDate day time = day * msPerDay + time"

definition TimeClip :: "int \<Rightarrow> int option" where
  "TimeClip t = (if \<bar>t\<bar> > 8640000000000000 then None else Some t)"

text \<open>
  The host's time zone is \<open>LocalTZA(t, isUTC)\<close>: the offset of local time from UTC in
  milliseconds, at the UTC time \<open>t\<close> when \<open>isUTC\<close> and at the local time \<open>t\<close> otherwise.
\<close>

type_synonym timezone = "int \<Rightarrow> bool \<Rightarrow> int"

definition LocalTime :: "timezone \<Rightarrow> int \<Rightarrow> int" where
  "LocalTime tza t = t + tza t True"

definition UTC :: "timezone \<Rightarrow> int \<Rightarrow> int" where
  "UTC tza t = t - tza t False"

text \<open>\<open>getDate\<close> and \<open>setDate\<close> work in local time.\<close>

definition getDate :: "timezone \<Rightarrow> int \<Rightarrow> int" where
  "getDate tza t = DateFromTime (LocalTime tza t)"

definition setDate :: "timezone \<Rightarrow> int \<Rightarrow> int \<Rightarrow> int option" where
  "setDate tza t dt =
     (let lt = LocalTime tza t;
          newDate = MakeDate (MakeDay (YearFromTime lt) (MonthFromTime lt) dt) (TimeWithinDay lt)
      in TimeClip (UTC tza newDate))"

text \<open>
  \<open>toISOString\<close> prints the UTC fields as \<open>YYYY-MM-DDTHH:mm:ss.sssZ\<close>, with a sign and six
  digits for a year outside 0 to 9999, and throws a \<open>RangeError\<close> on the invalid date.
\<close>

definition digitChar :: "int \<Rightarrow> char" where
  "digitChar n = ''0123456789'' ! nat (n mod 10)"

definition pad2 :: "int \<Rightarrow> string" where
  "pad2 n = [digitChar (n div 10), digitChar n]"

definition pad3 :: "int \<Rightarrow> string" where
  "pad3 n = [digitChar (n div 100), digitChar (n div 10), digitChar n]"

definition pad4 :: "int \<Rightarrow> string" where
  "pad4 n = [digitChar (n div 1000), digitChar (n div 100), digitChar (n div 10), digitChar n]"

definition pad6 :: "int \<Rightarrow> string" where
  "pad6 n = [digitChar (n div 100000), digitChar (n div 10000), digitChar (n div 1000),
             digitChar (n div 100), digitChar (n div 10), digitChar n]"

definition yearString :: "int \<Rightarrow> string" where
  "yearString y =
     (if 0 \<le> y \<and> y \<le> 9999 then pad4 y
      else if y < 0 then CHR ''-'' # pad6 (- y)
      else CHR ''+'' # pad6 y)"

definition toISOString :: "int option \<Rightarrow> js_error + string" where
  "toISOString tv =
     (case tv of
        None \<Rightarrow> Inl RangeError
      | Some t \<Rightarrow>
          Inr (yearString (YearFromTime t) @ ''-'' @ pad2 (MonthFromTime t + 1) @ ''-'' @
               pad2 (DateFromTime t) @ ''T'' @ pad2 (TimeWithinDay t div 3600000) @ '':'' @
               pad2 (TimeWithinDay t div 60000 mod 60) @ '':'' @
               pad2 (TimeWithinDay t div 1000 mod 60) @ ''.'' @
               pad3 (TimeWithinDay t mod 1000) @ ''Z''))"

text \<open>The part of that string before the \<open>T\<close>.\<close>

definition isoDate :: "int \<Rightarrow> string" where
  "isoDate t = yearString (YearFromTime t) @ ''-'' @ pad2 (MonthFromTime t + 1) @ ''-'' @
               pad2 (DateFromTime t)"

text \<open>
  \<open>new Date(string)\<close> on the date-only form \<open>YYYY-MM-DD\<close>, which is what a date input
  delivers: a calendar date is read as midnight UTC of that day. Every other string is
  rejected here; a host may accept more forms, which is why \<open>buildTripDates\<close> below
  takes the parser as an argument.
\<close>

definition digitValue :: "char \<Rightarrow> int option" where
  "digitValue c =
     (let v = of_char c :: int in if 48 \<le> v \<and> v \<le> 57 then Some (v - 48) else None)"

definition DaysInMonth :: "int \<Rightarrow> int \<Rightarrow> int" where
  "DaysInMonth y m =
     (if m = 2 then (if DaysInYear y = 366 then 29 else 28)
      else if m = 4 \<or> m = 6 \<or> m = 9 \<or> m = 11 then 30
      else 31)"

definition parseDateOnly :: "string \<Rightarrow> int option" where
  "parseDateOnly s =
     (case s of
        [y1, y2, y3, y4, sep1, m1, m2, sep2, d1, d2] \<Rightarrow>
          (case those (map digitValue [y1, y2, y3, y4, m1, m2, d1, d2]) of
             Some [a, b, c, d, e, f, g, h] \<Rightarrow>
               (let year = 1000 * a + 100 * b + 10 * c + d; month = 10 * e + f; dt = 10 * g + h in
                if sep1 = CHR ''-'' \<and> sep2 = CHR ''-'' \<and> 1 \<le> month \<and> month \<le> 12 \<and>
                   1 \<le> dt \<and> dt \<le> DaysInMonth year month
                then Some (MakeDate (MakeDay year (month - 1) dt) 0)
                else None)
           | _ \<Rightarrow> None)
      | _ \<Rightarrow> None)"

text \<open>
  Two hosts: one whose local time is UTC, and one in the zone Europe/Berlin in 2024
  (UTC+1; UTC+2 from 2024-03-31T01:00Z until 2024-10-27T01:00Z). A local time that the
  change skips or repeats is read with the offset in force before the change.
\<close>

definition tzUTC :: timezone where
  "tzUTC t isUTC = 0"

definition tzBerlin2024 :: timezone where
  "tzBerlin2024 t isUTC =
     (if isUTC
      then (if MakeDate (MakeDay 2024 2 31) 3600000 \<le> t \<and> t < MakeDate (MakeDay 2024 9 27) 3600000
            then 7200000 else 3600000)
      else (if MakeDate (MakeDay 2024 2 31) 10800000 \<le> t \<and> t < MakeDate (MakeDay 2024 9 27) 10800000
            then 7200000 else 3600000))"

section \<open>Deriving the trip dates\<close>

text \<open>
  The body of the mapping function of \<open>buildTripDates\<close>: copy \<open>parsed\<close>, move the copy with
  \<open>setDate(parsed.getDate() + index)\<close>, and keep \<open>toISOString().split('T')[0]\<close>.
\<close>

definition tripDateAt :: "timezone \<Rightarrow> int \<Rightarrow> int \<Rightarrow> js_error + string" where
  "tripDateAt tza parsed index =
     (let nextDate = setDate tza parsed (getDate tza parsed + index) in
      case toISOString nextDate of
        Inl e \<Rightarrow> Inl e
      | Inr s \<Rightarrow> Inr (takeWhile (\<lambda>c. c \<noteq> CHR ''T'') s))"

text \<open>
  \<open>buildTripDates\<close>, given the host's parser and time zone. An array longer than
  \<open>2^32 - 1\<close> cannot be created (\<open>RangeError\<close>).
\<close>

definition buildTripDates ::
  "(string \<Rightarrow> int option) \<Rightarrow> timezone \<Rightarrow> string \<Rightarrow> number \<Rightarrow> js_error + string list" where
  "buildTripDates parse tza startDate days =
     (if startDate = [] \<or> js_lt days (Fin 1) then Inr []
      else case parse startDate of
             None \<Rightarrow> Inr []
           | Some parsed \<Rightarrow>
               if 4294967295 < toLength days then Inl RangeError
               else mapResult (tripDateAt tza parsed) [0..toLength days - 1])"

section \<open>The daily selections slice\<close>

text \<open>
  \<open>type DailySelection = { hotelId?: number; lunchId?: number; dinnerId?: number }\<close> and
  \<open>type DailySelectionsState = Record<string, DailySelection>\<close>, with initial state \<open>{}\<close>.
  The keys are the strings \<open>buildTripDates\<close> produces; properties inherited from
  \<open>Object.prototype\<close> are not part of the model.
\<close>

record DailySelection =
  hotelId :: "number option"
  lunchId :: "number option"
  dinnerId :: "number option"

type_synonym DailySelectionsState = "string \<rightharpoonup> DailySelection"

definition emptySelection :: DailySelection where
  "emptySelection = \<lparr>hotelId = None, lunchId = None, dinnerId = None\<rparr>"

definition initialSelections :: DailySelectionsState where
  "initialSelections = Map.empty"

datatype meal_field = LunchField | DinnerField

text \<open>\<open>state[date]\<close> after \<open>if (!state[date]) state[date] = {}\<close>.\<close>

definition recordOrEmpty :: "DailySelectionsState \<Rightarrow> string \<Rightarrow> DailySelection" where
  "recordOrEmpty state date = (case state date of None \<Rightarrow> emptySelection | Some r \<Rightarrow> r)"

definition updateHotel :: "DailySelectionsState \<Rightarrow> string \<Rightarrow> number option \<Rightarrow> DailySelectionsState" where
  "updateHotel state date hid = state(date \<mapsto> (recordOrEmpty state date)\<lparr>hotelId := hid\<rparr>)"

text \<open>\<open>delete state[date][field]\<close> and \<open>state[date][field] = mealId\<close>.\<close>

fun setField :: "meal_field \<Rightarrow> number option \<Rightarrow> DailySelection \<Rightarrow> DailySelection" where
  "setField LunchField v r = r\<lparr>lunchId := v\<rparr>"
| "setField DinnerField v r = r\<lparr>dinnerId := v\<rparr>"

fun getField :: "meal_field \<Rightarrow> DailySelection \<Rightarrow> number option" where
  "getField LunchField r = lunchId r"
| "getField DinnerField r = dinnerId r"

definition updateMeal ::
  "DailySelectionsState \<Rightarrow> string \<Rightarrow> meal_field \<Rightarrow> number option \<Rightarrow> DailySelectionsState" where
  "updateMeal state date field mealId =
     (if \<not> truthy_opt mealId
      then state(date \<mapsto> setField field None (recordOrEmpty state date))
      else state(date \<mapsto> setField field mealId (recordOrEmpty state date)))"

text \<open>
  One round of the \<open>forEach\<close> of \<open>clearMeals\<close>: an existing record is replaced by
  \<open>hotelId ? { hotelId } : {}\<close>.
\<close>

definition clearedRecord :: "DailySelection \<Rightarrow> DailySelection" where
  "clearedRecord r =
     (if truthy_opt (hotelId r)
      then \<lparr>hotelId = hotelId r, lunchId = None, dinnerId = None\<rparr>
      else emptySelection)"

definition clearMealsStep :: "string \<Rightarrow> DailySelectionsState \<Rightarrow> DailySelectionsState" where
  "clearMealsStep date state =
     (case state date of
        None \<Rightarrow> state
      | Some r \<Rightarrow> state(date \<mapsto> clearedRecord r))"

definition clearMeals :: "DailySelectionsState \<Rightarrow> string list \<Rightarrow> DailySelectionsState" where
  "clearMeals state dates = fold clearMealsStep dates state"

text \<open>
  \<open>syncWithDates\<close> builds \<open>next\<close> from the empty object, one assignment
  \<open>next[date] = state[date] ?? {}\<close> per trip date, and returns it.
\<close>

definition syncStep :: "DailySelectionsState \<Rightarrow> string \<Rightarrow> DailySelectionsState \<Rightarrow> DailySelectionsState" where
  "syncStep state date next = next(date \<mapsto> recordOrEmpty state date)"

definition syncWithDates :: "DailySelectionsState \<Rightarrow> string list \<Rightarrow> DailySelectionsState" where
  "syncWithDates state tripDates = fold (syncStep state) tripDates Map.empty"

text \<open>The actions of the slice and its reducer; the store starts from \<open>{}\<close>.\<close>

datatype selection_action =
    UpdateHotel string "number option"
  | UpdateMeal string meal_field "number option"
  | ClearMeals "string list"
  | SyncWithDates "string list"

fun dailySelectionsReducer :: "DailySelectionsState \<Rightarrow> selection_action \<Rightarrow> DailySelectionsState" where
  "dailySelectionsReducer state (UpdateHotel date hid) = updateHotel state date hid"
| "dailySelectionsReducer state (UpdateMeal date field mealId) = updateMeal state date field mealId"
| "dailySelectionsReducer state (ClearMeals dates) = clearMeals state dates"
| "dailySelectionsReducer state (SyncWithDates tripDates) = syncWithDates state tripDates"

definition dispatchAll :: "selection_action list \<Rightarrow> DailySelectionsState" where
  "dispatchAll actions = foldl dailySelectionsReducer initialSelections actions"

section \<open>The trip configuration slice\<close>

datatype BoardCode = FB | HB | NB

record TripConfig =
  citizenship :: string
  startDate :: string
  days :: number
  destination :: string
  boardType :: BoardCode

text \<open>
  The payload \<open>{ key, value }\<close> of \<open>updateConfig\<close>, as the call site types it
  (\<open>handleConfigChange<K>(key: K, value: TripConfig[K])\<close>): one constructor per key, with
  the value of that field's type. For \<open>days\<close> the value is a number, and \<open>Number(value)\<close>
  of a number is that number.
\<close>

datatype config_update =
    Citizenship string
  | StartDate string
  | Days number
  | Destination string
  | BoardType BoardCode

fun updateConfig :: "TripConfig \<Rightarrow> config_update \<Rightarrow> TripConfig" where
  "updateConfig state (Days v) = state\<lparr>days := v\<rparr>"
| "updateConfig state (Citizenship v) = state\<lparr>citizenship := v\<rparr>"
| "updateConfig state (StartDate v) = state\<lparr>startDate := v\<rparr>"
| "updateConfig state (Destination v) = state\<lparr>destination := v\<rparr>"
| "updateConfig state (BoardType v) = state\<lparr>boardType := v\<rparr>"

definition updateBoardType :: "TripConfig \<Rightarrow> BoardCode \<Rightarrow> TripConfig" where
  "updateBoardType state code = state\<lparr>boardType := code\<rparr>"

text \<open>
  The \<open>onChange\<close> of the days input:
  \<open>handleConfigChange('days', Number(event.target.value) || 1)\<close>. The argument \<open>n\<close> is
  \<open>Number(event.target.value)\<close>, the host's conversion of the input's text.
\<close>

definition daysInputChanged :: "TripConfig \<Rightarrow> number \<Rightarrow> TripConfig" where
  "daysInputChanged state n = updateConfig state (Days (if truthy n then n else Fin 1))"

section \<open>The handlers of the App component\<close>

text \<open>
  The store holds both slices. A handler reads \<open>config\<close> and \<open>tripDates\<close> from the
  render it was created in and dispatches synchronously; \<open>tripDates\<close> is an argument
  where a handler uses it.
\<close>

record AppState =
  tripConfig :: TripConfig
  dailySelections :: DailySelectionsState

definition handleBoardChange :: "AppState \<Rightarrow> string list \<Rightarrow> BoardCode \<Rightarrow> AppState" where
  "handleBoardChange st tripDates code =
     (if code = boardType (tripConfig st) then st
      else let st1 = st\<lparr>tripConfig := updateBoardType (tripConfig st) code\<rparr>
           in if code = NB
              then st1\<lparr>dailySelections := clearMeals (dailySelections st1) tripDates\<rparr>
              else st1)"

definition handleHotelChange :: "AppState \<Rightarrow> string \<Rightarrow> number option \<Rightarrow> AppState" where
  "handleHotelChange st date hid = st\<lparr>dailySelections := updateHotel (dailySelections st) date hid\<rparr>"

fun otherField :: "meal_field \<Rightarrow> meal_field" where
  "otherField LunchField = DinnerField"
| "otherField DinnerField = LunchField"

definition handleMealChange :: "AppState \<Rightarrow> string \<Rightarrow> meal_field \<Rightarrow> number option \<Rightarrow> AppState" where
  "handleMealChange st date field mealId =
     (if boardType (tripConfig st) = NB then st
      else let st1 = st\<lparr>dailySelections := updateMeal (dailySelections st) date field mealId\<rparr>
           in if truthy_opt mealId \<and> boardType (tripConfig st) = HB
              then st1\<lparr>dailySelections := updateMeal (dailySelections st1) date (otherField field) None\<rparr>
              else st1)"

section \<open>Pricing\<close>

text \<open>
  The catalog (\<open>data.ts\<close>) is an input: \<open>availableHotels\<close> is
  \<open>hotelsByCountry[config.destination] ?? []\<close> and \<open>mealOptions\<close> is
  \<open>mealsByCountry[config.destination]\<close>, which may be \<open>undefined\<close>. A price is a
  number; the subtotal and the grand total are formed by the addition of numbers, from
  left to right.
\<close>

record CatalogEntry =
  entry_id :: number
  entry_name :: string
  price :: number

record MealOptions =
  lunch_options :: "CatalogEntry list"
  dinner_options :: "CatalogEntry list"

record BreakdownEntry =
  date :: string
  hotel :: "CatalogEntry option"
  lunch :: "CatalogEntry option"
  dinner :: "CatalogEntry option"
  subtotal :: number

text \<open>\<open>items.find((item) => item.id === selected)\<close>: the first entry with that id.\<close>

definition findItem :: "CatalogEntry list \<Rightarrow> number option \<Rightarrow> CatalogEntry option" where
  "findItem items selected = List.find (\<lambda>item. strict_eq (entry_id item) selected) items"

text \<open>\<open>item?.price ?? 0\<close>.\<close>

definition priceOrZero :: "CatalogEntry option \<Rightarrow> number" where
  "priceOrZero item = (case item of None \<Rightarrow> Fin 0 | Some e \<Rightarrow> price e)"

definition breakdownFor ::
  "DailySelectionsState \<Rightarrow> CatalogEntry list \<Rightarrow> MealOptions option \<Rightarrow> string \<Rightarrow> BreakdownEntry" where
  "breakdownFor selections availableHotels mealOptions d =
     (let selection = recordOrEmpty selections d;
          h = findItem availableHotels (hotelId selection);
          l = (case mealOptions of None \<Rightarrow> None
               | Some opts \<Rightarrow> findItem (lunch_options opts) (lunchId selection));
          dn = (case mealOptions of None \<Rightarrow> None
                | Some opts \<Rightarrow> findItem (dinner_options opts) (dinnerId selection))
      in \<lparr>date = d, hotel = h, lunch = l, dinner = dn,
          subtotal = js_add (js_add (priceOrZero h) (priceOrZero l)) (priceOrZero dn)\<rparr>)"

definition dailyBreakdown ::
  "string list \<Rightarrow> DailySelectionsState \<Rightarrow> CatalogEntry list \<Rightarrow> MealOptions option
     \<Rightarrow> BreakdownEntry list" where
  "dailyBreakdown tripDates selections availableHotels mealOptions =
     map (breakdownFor selections availableHotels mealOptions) tripDates"

text \<open>A number that is not negative: a finite value from 0 on, or the positive infinity.\<close>

abbreviation nonNegative :: "number \<Rightarrow> bool" where
  "nonNegative x \<equiv> x \<noteq> NaN \<and> \<not> js_lt x (Fin 0)"

definition grandTotal :: "BreakdownEntry list \<Rightarrow> number" where
  "grandTotal breakdown = foldl (\<lambda>acc entry. js_add acc (subtotal entry)) (Fin 0) breakdown"

text \<open>The catalog entries the two meal lookups range over.\<close>

definition lunchEntries :: "MealOptions option \<Rightarrow> CatalogEntry list" where
  "lunchEntries mealOptions = (case mealOptions of None \<Rightarrow> [] | Some opts \<Rightarrow> lunch_options opts)"

definition dinnerEntries :: "MealOptions option \<Rightarrow> CatalogEntry list" where
  "dinnerEntries mealOptions = (case mealOptions of None \<Rightarrow> [] | Some opts \<Rightarrow> dinner_options opts)"

text \<open>
  What a lookup by id may return: nothing, when no entry of the list carries the id, or
  an entry of the list that carries it.
\<close>

definition resolvesTo :: "CatalogEntry list \<Rightarrow> number option \<Rightarrow> CatalogEntry option \<Rightarrow> bool" where
  "resolvesTo items selected found =
     (case found of
        None \<Rightarrow> \<forall>item \<in> set items. \<not> strict_eq (entry_id item) selected
      | Some item \<Rightarrow> item \<in> set items \<and> strict_eq (entry_id item) selected)"

section \<open>An invariant of the store and sample data\<close>

text \<open>Every stored meal id is truthy.\<close>

definition mealsTruthy :: "DailySelectionsState \<Rightarrow> bool" where
  "mealsTruthy state = (\<forall>d r f n. state d = Some r \<longrightarrow> getField f r = Some n \<longrightarrow> truthy n)"

definition sampleRecord :: DailySelection where
  "sampleRecord = \<lparr>hotelId = Some (Fin 101), lunchId = Some (Fin 5), dinnerId = None\<rparr>"

definition sampleSelections :: DailySelectionsState where
  "sampleSelections =
     [''2024-03-01'' \<mapsto> \<lparr>hotelId = Some (Fin 101), lunchId = None, dinnerId = Some (Fin 7)\<rparr>,
      ''2024-03-02'' \<mapsto> sampleRecord,
      ''2024-03-03'' \<mapsto> \<lparr>hotelId = None, lunchId = Some (Fin 4), dinnerId = Some (Fin 7)\<rparr>]"

definition sampleConfig :: TripConfig where
  "sampleConfig = \<lparr>citizenship = [], startDate = ''2024-03-01'', days = Fin 3,
                    destination = ''Turkey'', boardType = FB\<rparr>"

definition sampleApp :: "BoardCode \<Rightarrow> AppState" where
  "sampleApp code = \<lparr>tripConfig = sampleConfig\<lparr>boardType := code\<rparr>,
                      dailySelections = sampleSelections\<rparr>"

text \<open>A store in which the hotel with id 0 has been chosen for a day.\<close>

definition hotelZeroApp :: AppState where
  "hotelZeroApp =
     \<lparr>tripConfig = sampleConfig,
      dailySelections =
        [''2024-03-01'' \<mapsto> \<lparr>hotelId = Some (Fin 0), lunchId = Some (Fin 5), dinnerId = None\<rparr>]\<rparr>"

text \<open>A catalog in which two hotels carry the id 101.\<close>

definition sampleHotels :: "CatalogEntry list" where
  "sampleHotels = [\<lparr>entry_id = Fin 101, entry_name = ''Hilton'', price = Fin 100\<rparr>,
                   \<lparr>entry_id = Fin 102, entry_name = ''Grand'', price = Fin 80\<rparr>,
                   \<lparr>entry_id = Fin 101, entry_name = ''Annex'', price = Fin 300\<rparr>]"

definition sampleMeals :: MealOptions where
  "sampleMeals = \<lparr>lunch_options = [\<lparr>entry_id = Fin 5, entry_name = ''Kebab'', price = Fin 20\<rparr>],
                  dinner_options = [\<lparr>entry_id = Fin 7, entry_name = ''Meze'', price = Fin 45\<rparr>]\<rparr>"

text \<open>The third day holds a hotel id that the catalog does not have.\<close>

definition pricedSelections :: DailySelectionsState where
  "pricedSelections =
     [''2024-03-01'' \<mapsto> \<lparr>hotelId = Some (Fin 101), lunchId = Some (Fin 5), dinnerId = None\<rparr>,
      ''2024-03-03'' \<mapsto> \<lparr>hotelId = Some (Fin 999), lunchId = None, dinnerId = Some (Fin 7)\<rparr>]"

text \<open>
  A catalog with a hotel at the price \<open>2^53\<close> and meals at the price 1, and a store that
  books the hotel with both meals on one day and a lunch on the next.
\<close>

definition largeHotels :: "CatalogEntry list" where
  "largeHotels = [\<lparr>entry_id = Fin 1, entry_name = ''Palace'', price = Fin 9007199254740992\<rparr>]"

definition smallMeals :: MealOptions where
  "smallMeals = \<lparr>lunch_options = [\<lparr>entry_id = Fin 2, entry_name = ''Simit'', price = Fin 1\<rparr>],
                 dinner_options = [\<lparr>entry_id = Fin 3, entry_name = ''Ayran'', price = Fin 1\<rparr>]\<rparr>"

definition largeSelections :: DailySelectionsState where
  "largeSelections =
     [''2024-03-01'' \<mapsto> \<lparr>hotelId = Some (Fin 1), lunchId = Some (Fin 2), dinnerId = Some (Fin 3)\<rparr>,
      ''2024-03-02'' \<mapsto> \<lparr>hotelId = None, lunchId = Some (Fin 2), dinnerId = None\<rparr>]"

section \<open>The Date model agrees with its specification\<close>

subsection \<open>Years\<close>

lemma int_div_lower: "0 < n \<Longrightarrow> n * (x div n) \<le> x" for x n :: int
  using mult_div_mod_eq [of n x] pos_mod_sign [of n x] by linarith

lemma int_div_upper: "0 < n \<Longrightarrow> x < n * (x div n) + n" for x n :: int
  using mult_div_mod_eq [of n x] pos_mod_bound [of n x] by linarith

lemma DayFromYear_offset:
  "DayFromYear (1970 + k) = 365 * k + (k + 1) div 4 - (k + 69) div 100 + (k + 369) div 400"
  by (simp add: DayFromYear_def algebra_simps)

lemma leap_count_bound:
  fixes k :: int
  defines "X \<equiv> (k + 1) div 4 - (k + 69) div 100 + (k + 369) div 400"
  shows "400 * X \<le> 97 * k + 589"
proof -
  define A where "A = (k + 1) div 4"
  define B where "B = (k + 69) div 100"
  define C where "C = (k + 369) div 400"
  have a: "4 * A \<le> k + 1"
    unfolding A_def by (rule int_div_lower) simp
  have b: "k + 69 < 100 * B + 100"
    unfolding B_def by (rule int_div_upper) simp
  have c: "400 * C \<le> k + 369"
    unfolding C_def by (rule int_div_lower) simp
  have lin: "100 * p - 4 * q + r \<le> 97 * k + 589"
    if "p \<le> k + 1" "k + 69 < q + 100" "r \<le> k + 369" for p q r :: int
    using that by linarith
  have "400 * (A - B + C) = 100 * (4 * A) - 4 * (100 * B) + 400 * C"
    by (simp add: algebra_simps)
  also have "\<dots> \<le> 97 * k + 589"
    by (rule lin [OF a b c])
  finally have "400 * (A - B + C) \<le> 97 * k + 589" .
  then show ?thesis
    by (simp add: X_def A_def B_def C_def)
qed

text \<open>The estimate from which \<open>YearFromTime\<close> counts up is not after the day.\<close>

lemma year_estimate:
  "DayFromYear (1970 + (if 0 \<le> d then d div 366 else d div 365)) \<le> d"
proof (cases "0 \<le> d")
  case True
  define k where "k = d div 366"
  define X where "X = (k + 1) div 4 - (k + 69) div 100 + (k + 369) div 400"
  have k0: "0 \<le> k"
    using True by (simp add: k_def pos_imp_zdiv_nonneg_iff)
  have kd: "366 * k \<le> d"
    unfolding k_def by (rule int_div_lower) simp
  have "X \<le> k"
  proof (cases "k \<le> 1")
    case True
    with k0 have "k = 0 \<or> k = 1" by auto
    then show ?thesis by (auto simp: X_def)
  next
    case False
    from leap_count_bound [of k] have "400 * X \<le> 97 * k + 589" by (simp add: X_def)
    with False show ?thesis by linarith
  qed
  then have "DayFromYear (1970 + k) \<le> 366 * k"
    by (simp add: DayFromYear_offset X_def)
  with kd True show ?thesis by (simp add: k_def)
next
  case False
  define k where "k = d div 365"
  define X where "X = (k + 1) div 4 - (k + 69) div 100 + (k + 369) div 400"
  have k0: "k < 0"
    using False by (simp add: k_def div_neg_pos_less0)
  have kd: "365 * k \<le> d"
    unfolding k_def by (rule int_div_lower) simp
  have "X \<le> 0"
  proof (cases "k = - 1")
    case True
    then show ?thesis by (simp add: X_def)
  next
    case False
    from leap_count_bound [of k] have "400 * X \<le> 97 * k + 589" by (simp add: X_def)
    with False k0 show ?thesis by linarith
  qed
  then have "DayFromYear (1970 + k) \<le> 365 * k"
    by (simp add: DayFromYear_offset X_def)
  with kd False show ?thesis by (simp add: k_def)
qed

lemma yearSearch_bounds:
  "DayFromYear y \<le> d \<Longrightarrow>
     DayFromYear (yearSearch d y) \<le> d \<and> d < DayFromYear (yearSearch d y + 1)"
proof (induction d y rule: yearSearch.induct)
  case (1 d y)
  show ?case
  proof (cases "DayFromYear (y + 1) \<le> d")
    case True
    with "1.IH" have "DayFromYear (yearSearch d (y + 1)) \<le> d \<and>
        d < DayFromYear (yearSearch d (y + 1) + 1)"
      by simp
    moreover from True have "yearSearch d y = yearSearch d (y + 1)"
      by (subst yearSearch.simps) simp
    ultimately show ?thesis by simp
  next
    case False
    then have "yearSearch d y = y"
      by (subst yearSearch.simps) simp
    with False "1.prems" show ?thesis by simp
  qed
qed

text \<open>
  \<open>YearFromTime t\<close> is the year whose first day is not after \<open>Day t\<close> and whose successor
  starts after it, which is how ECMA-262 defines it.
\<close>

lemma YearFromTime_bounds:
  "DayFromYear (YearFromTime t) \<le> Day t \<and> Day t < DayFromYear (YearFromTime t + 1)"
  unfolding YearFromTime_def by (rule yearSearch_bounds) (rule year_estimate)

lemma div_succ:
  fixes a n :: int
  assumes "1 < n"
  shows "(a + 1) div n = a div n + (if (a + 1) mod n = 0 then 1 else 0)"
proof -
  have r: "0 \<le> a mod n" "a mod n < n"
    using assms by simp_all
  show ?thesis
  proof (cases "a mod n + 1 = n")
    case True
    have "a + 1 = n * (a div n) + (a mod n + 1)" by simp
    also have "\<dots> = n * (a div n + 1) + 0"
      unfolding True by (simp add: algebra_simps)
    finally have e: "a + 1 = n * (a div n + 1) + 0" .
    have "(a + 1) div n = a div n + 1"
      using e by (rule int_div_pos_eq) (use assms in simp_all)
    moreover have "(a + 1) mod n = 0"
      using e by (rule int_mod_pos_eq) (use assms in simp_all)
    ultimately show ?thesis by simp
  next
    case False
    with r have lt: "a mod n + 1 < n" by simp
    have e: "a + 1 = n * (a div n) + (a mod n + 1)" by simp
    have "(a + 1) div n = a div n"
      using e by (rule int_div_pos_eq) (use r lt in simp_all)
    moreover have "(a + 1) mod n = a mod n + 1"
      using e by (rule int_mod_pos_eq) (use r lt in simp_all)
    ultimately show ?thesis using r by simp
  qed
qed

lemma leap_mod:
  "(y - 1968) mod 4 = y mod 4" "(y - 1900) mod 100 = y mod 100"
  "(y - 1600) mod 400 = y mod 400" for y :: int
proof -
  have "(y - 1968) mod 4 = (y + 4 * (- 492)) mod 4" by simp
  also have "\<dots> = y mod 4" by (rule mod_mult_self2)
  finally show "(y - 1968) mod 4 = y mod 4" .
  have "(y - 1900) mod 100 = (y + 100 * (- 19)) mod 100" by simp
  also have "\<dots> = y mod 100" by (rule mod_mult_self2)
  finally show "(y - 1900) mod 100 = y mod 100" .
  have "(y - 1600) mod 400 = (y + 400 * (- 4)) mod 400" by simp
  also have "\<dots> = y mod 400" by (rule mod_mult_self2)
  finally show "(y - 1600) mod 400 = y mod 400" .
qed

lemma leap_dvd: "y mod 400 = 0 \<Longrightarrow> y mod 100 = 0" "y mod 100 = 0 \<Longrightarrow> y mod 4 = 0" for y :: int
proof -
  have "(100::int) dvd 400" and "(4::int) dvd 100" by simp_all
  then show "y mod 400 = 0 \<Longrightarrow> y mod 100 = 0" and "y mod 100 = 0 \<Longrightarrow> y mod 4 = 0"
    by (auto simp: mod_eq_0_iff_dvd elim: dvd_trans)
qed

text \<open>A year is as long as \<open>DaysInYear\<close> says.\<close>

lemma DayFromYear_Suc: "DayFromYear (y + 1) = DayFromYear y + DaysInYear y"
proof -
  have a: "(y + 1 - 1969) div 4 = (y - 1969) div 4 + (if y mod 4 = 0 then 1 else 0)"
    using div_succ [of 4 "y - 1969"] by (simp add: leap_mod algebra_simps)
  have b: "(y + 1 - 1901) div 100 = (y - 1901) div 100 + (if y mod 100 = 0 then 1 else 0)"
    using div_succ [of 100 "y - 1901"] by (simp add: leap_mod algebra_simps)
  have c: "(y + 1 - 1601) div 400 = (y - 1601) div 400 + (if y mod 400 = 0 then 1 else 0)"
    using div_succ [of 400 "y - 1601"] by (simp add: leap_mod algebra_simps)
  have "DayFromYear (y + 1) = 365 * (y + 1 - 1970) + (y + 1 - 1969) div 4
      - (y + 1 - 1901) div 100 + (y + 1 - 1601) div 400"
    by (simp only: DayFromYear_def)
  also have "\<dots> = DayFromYear y + 365 + (if y mod 4 = 0 then 1 else 0)
      - (if y mod 100 = 0 then 1 else 0) + (if y mod 400 = 0 then 1 else 0)"
    unfolding a b c DayFromYear_def by (simp add: algebra_simps)
  also have "\<dots> = DayFromYear y + DaysInYear y"
    using leap_dvd [of y] by (auto simp: DaysInYear_def)
  finally show ?thesis .
qed

lemma DaysInYear_cases: "DaysInYear y = 365 \<or> DaysInYear y = 366"
  by (simp add: DaysInYear_def)

lemma DayFromYear_mono: "y \<le> y' \<Longrightarrow> DayFromYear y \<le> DayFromYear y'"
proof (induction y' rule: int_ge_induct)
  case base
  show ?case by simp
next
  case (step i)
  with DayFromYear_Suc [of i] DaysInYear_cases [of i] show ?case by linarith
qed

text \<open>The year of a time value is determined by the two bounds.\<close>

lemma YearFromTime_unique:
  assumes "DayFromYear y \<le> Day t" and "Day t < DayFromYear (y + 1)"
  shows "YearFromTime t = y"
proof (rule ccontr)
  assume neq: "YearFromTime t \<noteq> y"
  note b = YearFromTime_bounds [of t]
  show False
  proof (cases "YearFromTime t < y")
    case True
    then have "DayFromYear (YearFromTime t + 1) \<le> DayFromYear y"
      by (intro DayFromYear_mono) simp
    with b assms show False by linarith
  next
    case False
    with neq have "DayFromYear (y + 1) \<le> DayFromYear (YearFromTime t)"
      by (intro DayFromYear_mono) simp
    with b assms show False by linarith
  qed
qed

lemma Day_range:
  assumes "\<bar>t\<bar> \<le> 8640000000000000"
  shows "- 100000000 \<le> Day t \<and> Day t \<le> 100000000"
proof -
  have "(- 8640000000000000) div msPerDay \<le> t div msPerDay"
    using assms by (intro zdiv_mono1) (simp_all add: msPerDay_def)
  moreover have "t div msPerDay \<le> 8640000000000000 div msPerDay"
    using assms by (intro zdiv_mono1) (simp_all add: msPerDay_def)
  ultimately show ?thesis
    by (simp add: Day_def msPerDay_def)
qed

text \<open>Every time value lies in a year of at most six digits.\<close>

lemma YearFromTime_range:
  assumes "\<bar>t\<bar> \<le> 8640000000000000"
  shows "\<bar>YearFromTime t\<bar> < 1000000"
proof (rule ccontr)
  assume "\<not> \<bar>YearFromTime t\<bar> < 1000000"
  then consider "1000000 \<le> YearFromTime t" | "YearFromTime t + 1 \<le> - 999999"
    by linarith
  then show False
  proof cases
    case 1
    then have "DayFromYear 1000000 \<le> DayFromYear (YearFromTime t)"
      by (rule DayFromYear_mono)
    moreover have "DayFromYear 1000000 = 364522972"
      by (simp add: DayFromYear_def)
    ultimately show False
      using YearFromTime_bounds [of t] Day_range [OF assms] by linarith
  next
    case 2
    then have "DayFromYear (YearFromTime t + 1) \<le> DayFromYear (- 999999)"
      by (rule DayFromYear_mono)
    moreover have "DayFromYear (- 999999) = - 365961662"
      by (simp add: DayFromYear_def)
    ultimately show False
      using YearFromTime_bounds [of t] Day_range [OF assms] by linarith
  qed
qed

subsection \<open>Months and days\<close>

lemma MonthFromTime_range: "0 \<le> MonthFromTime t \<and> MonthFromTime t \<le> 11"
  by (simp add: MonthFromTime_def Let_def)

text \<open>Setting the day of the month to the current one plus \<open>i\<close> moves the day number by \<open>i\<close>.\<close>

lemma MakeDay_of_fields:
  "MakeDay (YearFromTime t) (MonthFromTime t) (DateFromTime t + i) = Day t + i"
proof -
  have "MonthFromTime t div 12 = 0" and "MonthFromTime t mod 12 = MonthFromTime t"
    using MonthFromTime_range [of t] by simp_all
  then show ?thesis
    by (simp add: MakeDay_def DateFromTime_def InLeapYear_def DayWithinYear_def)
qed

lemma month_cases:
  fixes m :: int
  assumes "0 \<le> m" "m \<le> 11"
  obtains "m = 0" | "m = 1" | "m = 2" | "m = 3" | "m = 4" | "m = 5"
    | "m = 6" | "m = 7" | "m = 8" | "m = 9" | "m = 10" | "m = 11"
proof -
  from assms have "m = 0 \<or> m = 1 \<or> m = 2 \<or> m = 3 \<or> m = 4 \<or> m = 5
      \<or> m = 6 \<or> m = 7 \<or> m = 8 \<or> m = 9 \<or> m = 10 \<or> m = 11"
    by presburger
  then show ?thesis using that by blast
qed

text \<open>
  The day that \<open>MakeDay\<close> returns for a date of the calendar has that year, month and day
  of the month.
\<close>

lemma fields_of_MakeDay:
  assumes m: "0 \<le> m" "m \<le> 11" and dt: "1 \<le> dt" "dt \<le> DaysInMonth y (m + 1)"
    and t: "Day t = MakeDay y m dt"
  shows "YearFromTime t = y" and "MonthFromTime t = m" and "DateFromTime t = dt"
proof -
  define l :: int where "l = (if DaysInYear y = 366 then 1 else 0)"
  define w where "w = monthStart l m + dt - 1"
  have len: "DaysInYear y = 365 + l"
    using DaysInYear_cases [of y] by (auto simp: l_def)
  have l01: "l = 0 \<or> l = 1"
    by (simp add: l_def)
  have feb: "DaysInMonth y 2 = 28 + l"
    by (simp add: DaysInMonth_def l_def)
  have day: "Day t = DayFromYear y + w"
    using m by (simp add: t MakeDay_def w_def l_def)
  have w: "monthStart l m \<le> w" "w < monthStart l m + DaysInMonth y (m + 1)"
    using dt by (simp_all add: w_def)
  have in_year: "0 \<le> w \<and> w < DaysInYear y"
    using m
  proof (cases m rule: month_cases)
  qed (use w l01 feb in \<open>auto simp: monthStart_def DaysInMonth_def len\<close>)
  show y: "YearFromTime t = y"
    by (rule YearFromTime_unique) (use in_year day in \<open>simp_all add: DayFromYear_Suc\<close>)
  have dwy: "DayWithinYear t = w"
    by (simp add: DayWithinYear_def y day)
  have leap: "InLeapYear t = l"
    by (simp add: InLeapYear_def y l_def)
  show mon: "MonthFromTime t = m"
    using m
  proof (cases m rule: month_cases)
  qed (use w l01 feb in \<open>auto simp: MonthFromTime_def dwy leap monthStart_def DaysInMonth_def\<close>)
  show "DateFromTime t = dt"
    by (simp add: DateFromTime_def dwy leap mon w_def)
qed

lemma DayWithinYear_range:
  "0 \<le> DayWithinYear t \<and> DayWithinYear t < 365 + InLeapYear t"
proof -
  have "DaysInYear (YearFromTime t) = 365 + InLeapYear t"
    using DaysInYear_cases [of "YearFromTime t"] by (auto simp: InLeapYear_def)
  with YearFromTime_bounds [of t] DayFromYear_Suc [of "YearFromTime t"] show ?thesis
    by (simp add: DayWithinYear_def)
qed

lemma InLeapYear_cases: "InLeapYear t = 0 \<or> InLeapYear t = 1"
  by (simp add: InLeapYear_def)

lemma DateFromTime_range: "1 \<le> DateFromTime t \<and> DateFromTime t \<le> 31"
  using DayWithinYear_range [of t] InLeapYear_cases [of t]
  by (auto simp: DateFromTime_def MonthFromTime_def monthStart_def Let_def)

lemma Day_of_fields:
  "Day t = DayFromYear (YearFromTime t) + monthStart (InLeapYear t) (MonthFromTime t)
             + DateFromTime t - 1"
  by (simp add: DateFromTime_def DayWithinYear_def)

lemma Day_MakeDate: "Day (MakeDate day 0) = day"
  by (simp add: Day_def MakeDate_def msPerDay_def)

lemma Day_add_days: "Day (t + i * msPerDay) = Day t + i"
  by (simp add: Day_def msPerDay_def)

subsection \<open>Printing and parsing\<close>

lemma digitChar_not_T: "digitChar n \<noteq> CHR ''T''" and T_not_digitChar: "CHR ''T'' \<noteq> digitChar n"
proof -
  have "nat (n mod 10) < length ''0123456789''" by simp
  then have "digitChar n \<in> set ''0123456789''"
    unfolding digitChar_def by (rule nth_mem)
  then show "digitChar n \<noteq> CHR ''T''" and "CHR ''T'' \<noteq> digitChar n"
    by auto
qed

lemma yearString_no_T: "CHR ''T'' \<notin> set (yearString y)"
  by (simp add: yearString_def pad4_def pad6_def T_not_digitChar)

text \<open>\<open>split('T')[0]\<close> of the ISO string is the date part.\<close>

lemma date_part_of_iso:
  "toISOString (Some t) = Inr s \<Longrightarrow> takeWhile (\<lambda>c. c \<noteq> CHR ''T'') s = isoDate t"
proof -
  assume "toISOString (Some t) = Inr s"
  then have s: "s = isoDate t @ CHR ''T'' # (pad2 (TimeWithinDay t div 3600000) @ '':'' @
               pad2 (TimeWithinDay t div 60000 mod 60) @ '':'' @
               pad2 (TimeWithinDay t div 1000 mod 60) @ ''.'' @
               pad3 (TimeWithinDay t mod 1000) @ ''Z'')"
    by (auto simp: toISOString_def isoDate_def)
  have "\<forall>c \<in> set (isoDate t). c \<noteq> CHR ''T''"
    using yearString_no_T [of "YearFromTime t"]
    by (auto simp: isoDate_def pad2_def digitChar_not_T T_not_digitChar)
  then show ?thesis
    unfolding s by (simp add: takeWhile_tail)
qed

lemma digit_cases:
  fixes v :: int
  assumes "0 \<le> v" "v \<le> 9"
  obtains "v = 0" | "v = 1" | "v = 2" | "v = 3" | "v = 4" | "v = 5"
    | "v = 6" | "v = 7" | "v = 8" | "v = 9"
proof -
  from assms have "v = 0 \<or> v = 1 \<or> v = 2 \<or> v = 3 \<or> v = 4 \<or> v = 5
      \<or> v = 6 \<or> v = 7 \<or> v = 8 \<or> v = 9"
    by presburger
  then show ?thesis using that by blast
qed

lemma char_by_code: "of_char c = (of_char c' :: int) \<Longrightarrow> c = c'"
  by simp

lemma digitValue_range: "digitValue c = Some v \<Longrightarrow> 0 \<le> v \<and> v \<le> 9"
  by (auto simp: digitValue_def Let_def split: if_splits)

lemma digitChar_digitValue:
  assumes "digitValue c = Some v"
  shows "digitChar v = c"
proof -
  from assms have code: "of_char c = 48 + v" and v: "0 \<le> v" "v \<le> 9"
    by (auto simp: digitValue_def Let_def split: if_splits)
  from v show ?thesis
  proof (cases v rule: digit_cases)
  qed (use code in \<open>auto simp: digitChar_def intro!: char_by_code [symmetric]\<close>)
qed

lemma those8:
  "those [x1, x2, x3, x4, x5, x6, x7, x8] = Some ys \<longleftrightarrow>
     (\<exists>a b c d e f g h. x1 = Some a \<and> x2 = Some b \<and> x3 = Some c \<and> x4 = Some d \<and>
        x5 = Some e \<and> x6 = Some f \<and> x7 = Some g \<and> x8 = Some h \<and> ys = [a, b, c, d, e, f, g, h])"
  by (auto split: option.splits)

text \<open>What \<open>parseDateOnly\<close> accepts: ten characters, digits around two hyphens, a date of the calendar.\<close>

lemma parseDateOnly_Some:
  assumes "parseDateOnly s = Some t"
  shows "\<exists>a b c d e f g h.
     s = [digitChar a, digitChar b, digitChar c, digitChar d, CHR ''-'',
          digitChar e, digitChar f, CHR ''-'', digitChar g, digitChar h] \<and>
     0 \<le> a \<and> a \<le> 9 \<and> 0 \<le> b \<and> b \<le> 9 \<and> 0 \<le> c \<and> c \<le> 9 \<and> 0 \<le> d \<and> d \<le> 9 \<and>
     0 \<le> e \<and> e \<le> 9 \<and> 0 \<le> f \<and> f \<le> 9 \<and> 0 \<le> g \<and> g \<le> 9 \<and> 0 \<le> h \<and> h \<le> 9 \<and>
     1 \<le> 10 * e + f \<and> 10 * e + f \<le> 12 \<and> 1 \<le> 10 * g + h \<and>
     10 * g + h \<le> DaysInMonth (1000 * a + 100 * b + 10 * c + d) (10 * e + f) \<and>
     t = MakeDate (MakeDay (1000 * a + 100 * b + 10 * c + d) (10 * e + f - 1) (10 * g + h)) 0"
proof -
  from assms obtain y1 y2 y3 y4 sep1 m1 m2 sep2 d1 d2
    where s: "s = [y1, y2, y3, y4, sep1, m1, m2, sep2, d1, d2]"
    by (auto simp: parseDateOnly_def split: list.splits)
  from assms obtain ds where ds: "those (map digitValue [y1, y2, y3, y4, m1, m2, d1, d2]) = Some ds"
    unfolding s parseDateOnly_def by (simp split: option.splits)
  then obtain a b c d e f g h where dv: "digitValue y1 = Some a" "digitValue y2 = Some b"
      "digitValue y3 = Some c" "digitValue y4 = Some d" "digitValue m1 = Some e"
      "digitValue m2 = Some f" "digitValue d1 = Some g" "digitValue d2 = Some h"
    and ds_eq: "ds = [a, b, c, d, e, f, g, h]"
    unfolding list.map those8 by blast
  have th: "those (map digitValue [y1, y2, y3, y4, m1, m2, d1, d2]) = Some [a, b, c, d, e, f, g, h]"
    by (simp add: dv)
  from assms have body:
    "(if sep1 = CHR ''-'' \<and> sep2 = CHR ''-'' \<and> 1 \<le> 10 * e + f \<and> 10 * e + f \<le> 12 \<and>
         1 \<le> 10 * g + h \<and>
         10 * g + h \<le> DaysInMonth (1000 * a + 100 * b + 10 * c + d) (10 * e + f)
      then Some (MakeDate (MakeDay (1000 * a + 100 * b + 10 * c + d) (10 * e + f - 1) (10 * g + h)) 0)
      else None) = Some t"
    unfolding s parseDateOnly_def by (simp only: th list.case option.case Let_def)
  then have rest: "sep1 = CHR ''-''" "sep2 = CHR ''-''"
      "1 \<le> 10 * e + f" "10 * e + f \<le> 12" "1 \<le> 10 * g + h"
      "10 * g + h \<le> DaysInMonth (1000 * a + 100 * b + 10 * c + d) (10 * e + f)"
      "t = MakeDate (MakeDay (1000 * a + 100 * b + 10 * c + d) (10 * e + f - 1) (10 * g + h)) 0"
    by (simp_all only: split: if_splits) auto
  have chars: "y1 = digitChar a" "y2 = digitChar b" "y3 = digitChar c" "y4 = digitChar d"
      "m1 = digitChar e" "m2 = digitChar f" "d1 = digitChar g" "d2 = digitChar h"
    using dv by (simp_all only: digitChar_digitValue)
  have ranges: "0 \<le> a \<and> a \<le> 9" "0 \<le> b \<and> b \<le> 9" "0 \<le> c \<and> c \<le> 9" "0 \<le> d \<and> d \<le> 9"
      "0 \<le> e \<and> e \<le> 9" "0 \<le> f \<and> f \<le> 9" "0 \<le> g \<and> g \<le> 9" "0 \<le> h \<and> h \<le> 9"
    using dv by (simp_all only: digitValue_range)
  have shape: "s = [digitChar a, digitChar b, digitChar c, digitChar d, CHR ''-'',
          digitChar e, digitChar f, CHR ''-'', digitChar g, digitChar h]"
    unfolding s chars rest(1,2) ..
  from shape ranges rest(3-7) show ?thesis by blast
qed

lemma digitChar_mod: "digitChar (10 * k + v) = digitChar v"
  by (simp add: digitChar_def)

lemma digitChar_place:
  assumes "0 \<le> lo" "lo < p"
  shows "digitChar ((p * (10 * k + v) + lo) div p) = digitChar v"
proof -
  have "(p * (10 * k + v) + lo) div p = 10 * k + v"
    by (rule int_div_pos_eq [OF refl assms])
  then show ?thesis by (simp only: digitChar_mod)
qed

lemma pad4_digits:
  assumes "0 \<le> a \<and> a \<le> 9" "0 \<le> b \<and> b \<le> 9" "0 \<le> c \<and> c \<le> 9" "0 \<le> d \<and> d \<le> 9"
  shows "pad4 (1000 * a + 100 * b + 10 * c + d) = [digitChar a, digitChar b, digitChar c, digitChar d]"
proof -
  let ?y = "1000 * a + 100 * b + 10 * c + d"
  have "digitChar (?y div 1000) = digitChar a"
    using digitChar_place [of "100 * b + 10 * c + d" 1000 0 a] assms by (simp add: algebra_simps)
  moreover have "digitChar (?y div 100) = digitChar b"
    using digitChar_place [of "10 * c + d" 100 a b] assms by (simp add: algebra_simps)
  moreover have "digitChar (?y div 10) = digitChar c"
    using digitChar_place [of d 10 "10 * a + b" c] assms by (simp add: algebra_simps)
  moreover have "digitChar ?y = digitChar d"
    using digitChar_mod [of "100 * a + 10 * b + c" d] by (simp add: algebra_simps)
  ultimately show ?thesis by (simp only: pad4_def)
qed

lemma pad2_digits:
  assumes "0 \<le> e \<and> e \<le> 9" "0 \<le> f \<and> f \<le> 9"
  shows "pad2 (10 * e + f) = [digitChar e, digitChar f]"
proof -
  have "digitChar ((10 * e + f) div 10) = digitChar e"
    using digitChar_place [of f 10 0 e] assms by (simp add: algebra_simps)
  moreover have "digitChar (10 * e + f) = digitChar f"
    by (rule digitChar_mod)
  ultimately show ?thesis by (simp only: pad2_def)
qed

text \<open>The date string of a day of the calendar in the years 0 to 9999.\<close>

lemma isoDate_of_date:
  assumes "0 \<le> y" "y \<le> 9999" and m: "0 \<le> m" "m \<le> 11"
    and dt: "1 \<le> dt" "dt \<le> DaysInMonth y (m + 1)" and day: "Day t = MakeDay y m dt"
  shows "isoDate t = pad4 y @ ''-'' @ pad2 (m + 1) @ ''-'' @ pad2 dt"
  using assms(1,2) by (simp add: isoDate_def yearString_def fields_of_MakeDay [OF m dt day])

text \<open>A date that \<open>parseDateOnly\<close> accepts is printed back as it was written.\<close>

lemma isoDate_parseDateOnly:
  assumes "parseDateOnly s = Some t"
  shows "isoDate t = s"
proof -
  from parseDateOnly_Some [OF assms] obtain a b c d e f g h where
    s: "s = [digitChar a, digitChar b, digitChar c, digitChar d, CHR ''-'',
          digitChar e, digitChar f, CHR ''-'', digitChar g, digitChar h]"
    and r: "0 \<le> a \<and> a \<le> 9" "0 \<le> b \<and> b \<le> 9" "0 \<le> c \<and> c \<le> 9" "0 \<le> d \<and> d \<le> 9"
      "0 \<le> e \<and> e \<le> 9" "0 \<le> f \<and> f \<le> 9" "0 \<le> g \<and> g \<le> 9" "0 \<le> h \<and> h \<le> 9"
    and m: "1 \<le> 10 * e + f" "10 * e + f \<le> 12"
    and dt: "1 \<le> 10 * g + h"
      "10 * g + h \<le> DaysInMonth (1000 * a + 100 * b + 10 * c + d) (10 * e + f)"
    and t: "t = MakeDate (MakeDay (1000 * a + 100 * b + 10 * c + d) (10 * e + f - 1) (10 * g + h)) 0"
    by blast
  let ?y = "1000 * a + 100 * b + 10 * c + d"
  have day: "Day t = MakeDay ?y (10 * e + f - 1) (10 * g + h)"
    unfolding t by (rule Day_MakeDate)
  have dt': "10 * g + h \<le> DaysInMonth ?y (10 * e + f - 1 + 1)"
    using dt(2) by simp
  have m': "0 \<le> 10 * e + f - 1" "10 * e + f - 1 \<le> 11"
    using m by simp_all
  note fields = fields_of_MakeDay [OF m' dt(1) dt' day]
  have y: "0 \<le> ?y \<and> ?y \<le> 9999"
    using r by auto
  have "isoDate t = pad4 ?y @ ''-'' @ pad2 (10 * e + f) @ ''-'' @ pad2 (10 * g + h)"
    using y by (simp add: isoDate_def fields yearString_def)
  also have "\<dots> = s"
    unfolding s pad4_digits [OF r(1-4)] pad2_digits [OF r(5,6)] pad2_digits [OF r(7,8)] by simp
  finally show ?thesis .
qed

lemma parseDateOnly_range:
  assumes "parseDateOnly s = Some t"
  shows "s \<noteq> []" and "\<bar>t\<bar> \<le> 8640000000000000"
proof -
  from parseDateOnly_Some [OF assms] obtain a b c d e f g h where
    s: "s = [digitChar a, digitChar b, digitChar c, digitChar d, CHR ''-'',
          digitChar e, digitChar f, CHR ''-'', digitChar g, digitChar h]"
    and r: "0 \<le> a \<and> a \<le> 9" "0 \<le> b \<and> b \<le> 9" "0 \<le> c \<and> c \<le> 9" "0 \<le> d \<and> d \<le> 9"
    and m: "1 \<le> 10 * e + f" "10 * e + f \<le> 12"
    and dt: "1 \<le> 10 * g + h"
      "10 * g + h \<le> DaysInMonth (1000 * a + 100 * b + 10 * c + d) (10 * e + f)"
    and t: "t = MakeDate (MakeDay (1000 * a + 100 * b + 10 * c + d) (10 * e + f - 1) (10 * g + h)) 0"
    by blast
  show "s \<noteq> []" by (simp add: s)
  let ?y = "1000 * a + 100 * b + 10 * c + d"
  have day: "Day t = MakeDay ?y (10 * e + f - 1) (10 * g + h)"
    unfolding t by (rule Day_MakeDate)
  have "YearFromTime t = ?y"
    by (rule fields_of_MakeDay(1) [OF _ _ dt(1) _ day]) (use m dt(2) in simp_all)
  moreover have "0 \<le> ?y" "?y + 1 \<le> 10000"
    using r by auto
  ultimately have "DayFromYear 0 \<le> DayFromYear (YearFromTime t)"
    and "DayFromYear (YearFromTime t + 1) \<le> DayFromYear 10000"
    by (simp_all add: DayFromYear_mono)
  moreover have "DayFromYear 0 = - 719528" "DayFromYear 10000 = 2932897"
    by (simp_all add: DayFromYear_def)
  ultimately have "- 719528 \<le> Day t" "Day t < 2932897"
    using YearFromTime_bounds [of t] by simp_all
  moreover have "t = Day t * msPerDay"
    unfolding day unfolding t by (simp add: MakeDate_def)
  ultimately show "\<bar>t\<bar> \<le> 8640000000000000"
    by (simp add: msPerDay_def)
qed

lemma digitChar_inj: "digitChar x = digitChar y \<Longrightarrow> x mod 10 = y mod 10"
proof -
  assume eq: "digitChar x = digitChar y"
  have d: "distinct ''0123456789''" by simp
  have "nat (x mod 10) < length ''0123456789''" "nat (y mod 10) < length ''0123456789''"
    by simp_all
  with d eq have "nat (x mod 10) = nat (y mod 10)"
    unfolding digitChar_def by (simp only: nth_eq_iff_index_eq)
  then show ?thesis by simp
qed

text \<open>Two numbers with the same decimal digits, up to a power of ten, are equal.\<close>

lemma digits_inj_step:
  fixes x y :: int
  assumes "digitChar x = digitChar y" and "x div 10 = y div 10"
  shows "x = y"
proof -
  from assms(1) have "x mod 10 = y mod 10" by (rule digitChar_inj)
  with assms(2) have "10 * (x div 10) + x mod 10 = 10 * (y div 10) + y mod 10"
    by simp
  then show ?thesis
    by (simp only: mult_div_mod_eq)
qed

lemma div10_step:
  fixes x y p :: int
  assumes "digitChar (x div p) = digitChar (y div p)" and "x div (p * 10) = y div (p * 10)"
  shows "x div p = y div p"
proof -
  have "x div p div 10 = x div (p * 10)" "y div p div 10 = y div (p * 10)"
    by (simp_all add: zdiv_zmult2_eq)
  with assms(2) have "x div p div 10 = y div p div 10" by simp
  with assms(1) show ?thesis by (rule digits_inj_step)
qed

lemma pad2_inj:
  assumes "pad2 x = pad2 y" "0 \<le> x" "x < 100" "0 \<le> y" "y < 100"
  shows "x = y"
proof -
  from assms(1) have d1: "digitChar (x div 10) = digitChar (y div 10)"
    and d0: "digitChar x = digitChar y"
    by (simp_all add: pad2_def)
  have top: "x div 100 = y div 100"
    using assms(2-5) by (simp add: div_pos_pos_trivial)
  from d1 top have "x div 10 = y div 10"
    using div10_step [of x 10 y] by simp
  with d0 show ?thesis by (rule digits_inj_step)
qed

lemma pad4_inj:
  assumes "pad4 x = pad4 y" "0 \<le> x" "x < 10000" "0 \<le> y" "y < 10000"
  shows "x = y"
proof -
  from assms(1) have d3: "digitChar (x div 1000) = digitChar (y div 1000)"
    and d2: "digitChar (x div 100) = digitChar (y div 100)"
    and d1: "digitChar (x div 10) = digitChar (y div 10)"
    and d0: "digitChar x = digitChar y"
    by (simp_all add: pad4_def)
  have top: "x div 10000 = y div 10000"
    using assms(2-5) by (simp add: div_pos_pos_trivial)
  from d3 top have "x div 1000 = y div 1000"
    using div10_step [of x 1000 y] by simp
  with d2 have "x div 100 = y div 100"
    using div10_step [of x 100 y] by simp
  with d1 have "x div 10 = y div 10"
    using div10_step [of x 10 y] by simp
  with d0 show ?thesis by (rule digits_inj_step)
qed

lemma pad6_inj:
  assumes "pad6 x = pad6 y" "0 \<le> x" "x < 1000000" "0 \<le> y" "y < 1000000"
  shows "x = y"
proof -
  from assms(1) have d5: "digitChar (x div 100000) = digitChar (y div 100000)"
    and d4: "digitChar (x div 10000) = digitChar (y div 10000)"
    and d3: "digitChar (x div 1000) = digitChar (y div 1000)"
    and d2: "digitChar (x div 100) = digitChar (y div 100)"
    and d1: "digitChar (x div 10) = digitChar (y div 10)"
    and d0: "digitChar x = digitChar y"
    by (simp_all add: pad6_def)
  have top: "x div 1000000 = y div 1000000"
    using assms(2-5) by (simp add: div_pos_pos_trivial)
  from d5 top have "x div 100000 = y div 100000"
    using div10_step [of x 100000 y] by simp
  with d4 have "x div 10000 = y div 10000"
    using div10_step [of x 10000 y] by simp
  with d3 have "x div 1000 = y div 1000"
    using div10_step [of x 1000 y] by simp
  with d2 have "x div 100 = y div 100"
    using div10_step [of x 100 y] by simp
  with d1 have "x div 10 = y div 10"
    using div10_step [of x 10 y] by simp
  with d0 show ?thesis by (rule digits_inj_step)
qed

lemma yearString_inj:
  assumes "yearString x = yearString y" "\<bar>x\<bar> < 1000000" "\<bar>y\<bar> < 1000000"
  shows "x = y"
proof -
  have len: "length (yearString z) = (if 0 \<le> z \<and> z \<le> 9999 then 4 else 7)" for z
    by (simp add: yearString_def pad4_def pad6_def)
  from assms(1) have "length (yearString x) = length (yearString y)" by simp
  then have same: "(0 \<le> x \<and> x \<le> 9999) = (0 \<le> y \<and> y \<le> 9999)"
    unfolding len by (auto split: if_splits)
  show ?thesis
  proof (cases "0 \<le> x \<and> x \<le> 9999")
    case True
    with same assms(1) have "pad4 x = pad4 y" by (simp add: yearString_def)
    with True same show ?thesis by (intro pad4_inj) simp_all
  next
    case False
    with same have ny: "\<not> (0 \<le> y \<and> y \<le> 9999)" by simp
    from False ny assms(1) have sign: "(x < 0) = (y < 0)"
      by (auto simp: yearString_def split: if_splits)
    show ?thesis
    proof (cases "x < 0")
      case True
      with sign False ny assms(1) have "pad6 (- x) = pad6 (- y)"
        by (simp add: yearString_def)
      then have "- x = - y"
        using True sign assms(2,3) by (intro pad6_inj) simp_all
      then show ?thesis by simp
    next
      case pos: False
      with sign False ny assms(1) have "pad6 x = pad6 y"
        by (auto simp: yearString_def split: if_splits)
      then show ?thesis
        using pos sign assms(2,3) by (intro pad6_inj) simp_all
    qed
  qed
qed

text \<open>Within the range of time values, two instants with the same date string are on the same day.\<close>

lemma isoDate_inj:
  assumes eq: "isoDate t = isoDate t'"
    and t: "\<bar>t\<bar> \<le> 8640000000000000" and t': "\<bar>t'\<bar> \<le> 8640000000000000"
  shows "Day t = Day t'"
proof -
  have split: "isoDate u = yearString (YearFromTime u) @
      [CHR ''-'', digitChar ((MonthFromTime u + 1) div 10), digitChar (MonthFromTime u + 1),
       CHR ''-'', digitChar (DateFromTime u div 10), digitChar (DateFromTime u)]" for u
    by (simp add: isoDate_def pad2_def)
  from eq have "yearString (YearFromTime t) = yearString (YearFromTime t') \<and>
      [CHR ''-'', digitChar ((MonthFromTime t + 1) div 10), digitChar (MonthFromTime t + 1),
       CHR ''-'', digitChar (DateFromTime t div 10), digitChar (DateFromTime t)] =
      [CHR ''-'', digitChar ((MonthFromTime t' + 1) div 10), digitChar (MonthFromTime t' + 1),
       CHR ''-'', digitChar (DateFromTime t' div 10), digitChar (DateFromTime t')]"
    unfolding split by (subst (asm) append_eq_append_conv) simp_all
  then have ys: "yearString (YearFromTime t) = yearString (YearFromTime t')"
    and ms: "pad2 (MonthFromTime t + 1) = pad2 (MonthFromTime t' + 1)"
    and ds: "pad2 (DateFromTime t) = pad2 (DateFromTime t')"
    by (simp_all add: pad2_def)
  from ys have y: "YearFromTime t = YearFromTime t'"
    by (rule yearString_inj) (rule YearFromTime_range [OF t], rule YearFromTime_range [OF t'])
  from ms have "MonthFromTime t + 1 = MonthFromTime t' + 1"
    using MonthFromTime_range [of t] MonthFromTime_range [of t'] by (intro pad2_inj) simp_all
  then have m: "MonthFromTime t = MonthFromTime t'" by simp
  from ds have d: "DateFromTime t = DateFromTime t'"
    using DateFromTime_range [of t] DateFromTime_range [of t'] by (intro pad2_inj) simp_all
  have l: "InLeapYear t = InLeapYear t'"
    by (simp add: InLeapYear_def y)
  show ?thesis
    by (simp only: Day_of_fields [of t] Day_of_fields [of t'] y m d l)
qed

section \<open>Trip dates\<close>

subsection \<open>Hosts without a change of offset\<close>

lemma setDate_constant_offset:
  assumes "\<And>u b. tza u b = c" and "\<bar>t + i * msPerDay\<bar> \<le> 8640000000000000"
  shows "setDate tza t (getDate tza t + i) = Some (t + i * msPerDay)"
proof -
  have lt: "LocalTime tza t = t + c"
    by (simp add: LocalTime_def assms(1))
  have "MakeDate (MakeDay (YearFromTime (t + c)) (MonthFromTime (t + c)) (DateFromTime (t + c) + i))
          (TimeWithinDay (t + c)) = (Day (t + c) + i) * msPerDay + (t + c) mod msPerDay"
    by (simp only: MakeDay_of_fields MakeDate_def TimeWithinDay_def)
  also have "\<dots> = t + c + i * msPerDay"
    by (simp add: Day_def algebra_simps)
  finally show ?thesis
    using assms(2) by (simp add: setDate_def getDate_def lt UTC_def assms(1) TimeClip_def)
qed

lemma tripDateAt_constant_offset:
  assumes "\<And>u b. tza u b = c" and "\<bar>t + i * msPerDay\<bar> \<le> 8640000000000000"
  shows "tripDateAt tza t i = Inr (isoDate (t + i * msPerDay))"
proof -
  obtain s where s: "toISOString (Some (t + i * msPerDay)) = Inr s"
    by (simp add: toISOString_def)
  show ?thesis
    by (simp add: tripDateAt_def setDate_constant_offset [OF assms] s date_part_of_iso [OF s])
qed

lemma mapResult_Inr:
  "(\<And>x. x \<in> set xs \<Longrightarrow> f x = Inr (g x)) \<Longrightarrow> mapResult f xs = Inr (map g xs)"
  by (induction xs) simp_all

text \<open>
  On a host whose offset from UTC never changes, and while the dates stay in the range of
  time values, entry \<open>i\<close> is the date of the instant \<open>i\<close> days after the parsed start.
\<close>

lemma buildTripDates_constant_offset:
  assumes tz: "\<And>u b. tza u b = c"
    and parse: "parse s = Some t0" and s: "s \<noteq> []"
    and n: "1 \<le> n" "n \<le> 4294967295"
    and lo: "\<bar>t0\<bar> \<le> 8640000000000000"
    and hi: "\<bar>t0 + (n - 1) * msPerDay\<bar> \<le> 8640000000000000"
  shows "buildTripDates parse tza s (Fin (of_int n))
           = Inr (map (\<lambda>i. isoDate (t0 + i * msPerDay)) [0..n - 1])"
proof -
  have len: "toLength (Fin (of_int n)) = n"
    using n by simp
  have each: "tripDateAt tza t0 i = Inr (isoDate (t0 + i * msPerDay))" if "i \<in> set [0..n - 1]" for i
  proof -
    from that have i: "0 \<le> i" "i \<le> n - 1" by simp_all
    have "0 \<le> i * msPerDay" "i * msPerDay \<le> (n - 1) * msPerDay"
      using i by (simp_all add: msPerDay_def)
    with lo hi have "\<bar>t0 + i * msPerDay\<bar> \<le> 8640000000000000"
      by linarith
    with tz show ?thesis by (rule tripDateAt_constant_offset)
  qed
  have all: "mapResult (tripDateAt tza t0) [0..n - 1]
      = Inr (map (\<lambda>i. isoDate (t0 + i * msPerDay)) [0..n - 1])"
    by (rule mapResult_Inr) (rule each)
  have "\<not> js_lt (Fin (of_int n)) (Fin 1)"
    using n by simp
  then show ?thesis
    using s n by (simp add: buildTripDates_def parse len all)
qed

text \<open>
  On a host whose offset from UTC never changes, for a start date in the form
  \<open>YYYY-MM-DD\<close> and a whole number \<open>n \<ge> 1\<close> of days that stay in the range of time
  values: \<open>buildTripDates\<close> returns \<open>n\<close> strings, the first is the start date as
  written, entry \<open>i\<close> is the date \<open>i\<close> days after the start, and no date comes twice.
\<close>

lemma buildTripDates_consecutive:
  assumes tz: "\<And>u b. tza u b = c"
    and parse: "parseDateOnly s = Some t0"
    and n: "1 \<le> n" "n \<le> 4294967295"
    and hi: "t0 + (n - 1) * msPerDay \<le> 8640000000000000"
  shows "\<exists>ds. buildTripDates parseDateOnly tza s (Fin (of_int n)) = Inr ds \<and>
           length ds = nat n \<and> ds ! 0 = s \<and>
           (\<forall>i < nat n. ds ! i = isoDate (t0 + int i * msPerDay)) \<and> distinct ds"
proof -
  let ?f = "\<lambda>i. isoDate (t0 + i * msPerDay)"
  let ?ds = "map ?f [0..n - 1]"
  note start = parseDateOnly_range [OF parse]
  have inside: "\<bar>t0 + i * msPerDay\<bar> \<le> 8640000000000000" if "0 \<le> i" "i \<le> n - 1" for i
  proof -
    have "0 \<le> i * msPerDay" "i * msPerDay \<le> (n - 1) * msPerDay"
      using that by (simp_all add: msPerDay_def)
    with start(2) hi show ?thesis by linarith
  qed
  have res: "buildTripDates parseDateOnly tza s (Fin (of_int n)) = Inr ?ds"
  proof (rule buildTripDates_constant_offset [where c = c])
    show "tza u b = c" for u b by (rule tz)
    show "\<bar>t0 + (n - 1) * msPerDay\<bar> \<le> 8640000000000000"
      using inside [of "n - 1"] n by simp
  qed (use parse start n in simp_all)
  have len: "length ?ds = nat n"
    using n by simp
  have nth: "?ds ! i = isoDate (t0 + int i * msPerDay)" if "i < nat n" for i
    using that by (simp add: nth_upto)
  have first: "?ds ! 0 = s"
    using n nth [of 0] isoDate_parseDateOnly [OF parse] by simp
  have "inj_on ?f (set [0..n - 1])"
  proof (rule inj_onI)
    fix i j
    assume i: "i \<in> set [0..n - 1]" and j: "j \<in> set [0..n - 1]" and eq: "?f i = ?f j"
    from eq have "Day (t0 + i * msPerDay) = Day (t0 + j * msPerDay)"
      by (rule isoDate_inj) (use i j in \<open>simp_all add: inside\<close>)
    then show "i = j"
      by (simp add: Day_add_days)
  qed
  then have dist: "distinct ?ds"
    by (simp add: distinct_map)
  from res len first nth dist show ?thesis by blast
qed

subsection \<open>Evaluation across a month boundary\<close>

lemma parse_2024_01_30: "parseDateOnly ''2024-01-30'' = Some 1706572800000"
  by (simp add: parseDateOnly_def digitValue_def DaysInMonth_def DaysInYear_def MakeDate_def
      MakeDay_def DayFromYear_def monthStart_def msPerDay_def)

text \<open>
  The month boundary: on a host with local time UTC, three days from 2024-01-30 end on
  2024-02-01.
\<close>

lemma buildTripDates_utc_january:
  "buildTripDates parseDateOnly tzUTC ''2024-01-30'' (Fin 3)
     = Inr [''2024-01-30'', ''2024-01-31'', ''2024-02-01'']"
proof -
  have "buildTripDates parseDateOnly tzUTC ''2024-01-30'' (Fin (of_int 3))
      = Inr (map (\<lambda>i. isoDate (1706572800000 + i * msPerDay)) [0..3 - 1])"
    by (rule buildTripDates_constant_offset [where c = 0])
      (simp_all add: tzUTC_def parse_2024_01_30 msPerDay_def)
  moreover have "isoDate 1706572800000 = ''2024-01-30''"
    by (simp add: isoDate_of_date [of 2024 0 30] DaysInMonth_def Day_def msPerDay_def MakeDay_def
        DayFromYear_def DaysInYear_def monthStart_def pad4_def pad2_def digitChar_def)
  moreover have "isoDate 1706659200000 = ''2024-01-31''"
    by (simp add: isoDate_of_date [of 2024 0 31] DaysInMonth_def Day_def msPerDay_def MakeDay_def
        DayFromYear_def DaysInYear_def monthStart_def pad4_def pad2_def digitChar_def)
  moreover have "isoDate 1706745600000 = ''2024-02-01''"
    by (simp add: isoDate_of_date [of 2024 1 1] DaysInMonth_def Day_def msPerDay_def MakeDay_def
        DayFromYear_def DaysInYear_def monthStart_def pad4_def pad2_def digitChar_def)
  ultimately show ?thesis
    by (simp add: upto_rec1 msPerDay_def)
qed

subsection \<open>Evaluation across the change to summer time\<close>

lemma civil_2024_03_30:
  assumes "Day t = 19812"
  shows "YearFromTime t = 2024" and "MonthFromTime t = 2" and "DateFromTime t = 30"
proof -
  show y: "YearFromTime t = 2024"
    by (simp add: YearFromTime_def assms DayFromYear_def)
  have l: "InLeapYear t = 1"
    by (simp add: InLeapYear_def y DaysInYear_def)
  have d: "DayWithinYear t = 89"
    by (simp add: DayWithinYear_def y assms DayFromYear_def)
  show m: "MonthFromTime t = 2"
    by (simp add: MonthFromTime_def d l)
  show "DateFromTime t = 30"
    by (simp add: DateFromTime_def d l m monthStart_def)
qed

lemma civil_2024_03_31:
  assumes "Day t = 19813"
  shows "YearFromTime t = 2024" and "MonthFromTime t = 2" and "DateFromTime t = 31"
proof -
  show y: "YearFromTime t = 2024"
    by (simp add: YearFromTime_def assms DayFromYear_def)
  have l: "InLeapYear t = 1"
    by (simp add: InLeapYear_def y DaysInYear_def)
  have d: "DayWithinYear t = 90"
    by (simp add: DayWithinYear_def y assms DayFromYear_def)
  show m: "MonthFromTime t = 2"
    by (simp add: MonthFromTime_def d l)
  show "DateFromTime t = 31"
    by (simp add: DateFromTime_def d l m monthStart_def)
qed

lemma MakeDay_2024_march: "MakeDay 2024 2 dt = 19782 + dt"
  by (simp add: MakeDay_def DayFromYear_def DaysInYear_def monthStart_def)

lemma tzBerlin2024_eval:
  "tzBerlin2024 t True = (if 1711846800000 \<le> t \<and> t < 1729990800000 then 7200000 else 3600000)"
  "tzBerlin2024 t False = (if 1711854000000 \<le> t \<and> t < 1729998000000 then 7200000 else 3600000)"
  by (simp_all add: tzBerlin2024_def MakeDate_def MakeDay_def DayFromYear_def DaysInYear_def
      monthStart_def msPerDay_def)

lemma parse_2024_03_30: "parseDateOnly ''2024-03-30'' = Some 1711756800000"
  by (simp add: parseDateOnly_def digitValue_def DaysInMonth_def DaysInYear_def MakeDate_def
      MakeDay_def DayFromYear_def monthStart_def msPerDay_def)

lemma getDate_berlin: "getDate tzBerlin2024 1711756800000 = 30"
  by (simp add: getDate_def LocalTime_def tzBerlin2024_eval civil_2024_03_30 Day_def msPerDay_def)

lemma setDate_berlin:
  "setDate tzBerlin2024 1711756800000 30 = Some 1711756800000"
  "setDate tzBerlin2024 1711756800000 31 = Some 1711843200000"
  "setDate tzBerlin2024 1711756800000 32 = Some 1711926000000"
  by (simp_all add: setDate_def LocalTime_def UTC_def tzBerlin2024_eval civil_2024_03_30 Day_def
      TimeWithinDay_def msPerDay_def MakeDay_2024_march MakeDate_def TimeClip_def Let_def)

lemma toISOString_march:
  "toISOString (Some 1711756800000) = Inr ''2024-03-30T00:00:00.000Z''"
  "toISOString (Some 1711843200000) = Inr ''2024-03-31T00:00:00.000Z''"
  "toISOString (Some 1711926000000) = Inr ''2024-03-31T23:00:00.000Z''"
  by (simp_all add: toISOString_def yearString_def pad2_def pad3_def pad4_def digitChar_def
      TimeWithinDay_def civil_2024_03_30 civil_2024_03_31 Day_def msPerDay_def)

lemma tripDateAt_berlin:
  "tripDateAt tzBerlin2024 1711756800000 0 = Inr ''2024-03-30''"
  "tripDateAt tzBerlin2024 1711756800000 1 = Inr ''2024-03-31''"
  "tripDateAt tzBerlin2024 1711756800000 2 = Inr ''2024-03-31''"
  by (simp_all add: tripDateAt_def getDate_berlin setDate_berlin toISOString_march)

text \<open>
  On a host with local time UTC the same start gives three consecutive dates.
\<close>

lemma buildTripDates_utc_march:
  "buildTripDates parseDateOnly tzUTC ''2024-03-30'' (Fin 3)
     = Inr [''2024-03-30'', ''2024-03-31'', ''2024-04-01'']"
proof -
  have "buildTripDates parseDateOnly tzUTC ''2024-03-30'' (Fin (of_int 3))
      = Inr (map (\<lambda>i. isoDate (1711756800000 + i * msPerDay)) [0..3 - 1])"
    by (rule buildTripDates_constant_offset [where c = 0])
      (simp_all add: tzUTC_def parse_2024_03_30 msPerDay_def)
  moreover have "isoDate 1711756800000 = ''2024-03-30''"
    by (simp add: isoDate_def yearString_def pad2_def pad4_def digitChar_def
        civil_2024_03_30 Day_def msPerDay_def)
  moreover have "isoDate 1711843200000 = ''2024-03-31''"
    by (simp add: isoDate_def yearString_def pad2_def pad4_def digitChar_def
        civil_2024_03_31 Day_def msPerDay_def)
  moreover have "YearFromTime 1711929600000 = 2024"
    by (simp add: YearFromTime_def Day_def msPerDay_def DayFromYear_def)
  then have "isoDate 1711929600000 = ''2024-04-01''"
    by (simp add: isoDate_def yearString_def pad2_def pad4_def digitChar_def MonthFromTime_def
        DateFromTime_def DayWithinYear_def InLeapYear_def DaysInYear_def monthStart_def
        DayFromYear_def Day_def msPerDay_def)
  ultimately show ?thesis
    by (simp add: upto_rec1 msPerDay_def)
qed

text \<open>
  C1. For every valid start date and every \<open>days \<ge> 1\<close>, \<open>buildTripDates\<close> is to return
  exactly \<open>days\<close> ISO dates, entry \<open>i\<close> being the start date plus \<open>i\<close> calendar days, strictly
  increasing and free of duplicates, whatever the time zone. The function moves the date
  in local time (\<open>getDate\<close>, \<open>setDate\<close>) and prints it in UTC (\<open>toISOString\<close>). On a host in
  the zone Europe/Berlin, a three-day trip from 2024-03-30 crosses the change to summer
  time: the third entry is 2024-03-31T23:00Z, so the date 2024-03-31 comes twice and
  2024-04-01 is missing.
\<close>

theorem buildTripDates_repeats_a_date:
  "buildTripDates parseDateOnly tzBerlin2024 ''2024-03-30'' (Fin 3)
     = Inr [''2024-03-30'', ''2024-03-31'', ''2024-03-31'']"
  by (simp add: buildTripDates_def parse_2024_03_30 upto_rec1 tripDateAt_berlin)

text \<open>
  C8. For a start date that is empty or does not parse, and for \<open>days < 1\<close>,
  \<open>buildTripDates\<close> returns the empty sequence and raises no error, whatever the host's
  parser and time zone.
\<close>

theorem buildTripDates_not_configured:
  "s = [] \<or> parse s = None \<or> js_lt n (Fin 1) \<Longrightarrow> buildTripDates parse tza s n = Inr []"
  by (auto simp: buildTripDates_def)

theorem buildTripDates_not_configured_witness:
  "buildTripDates parseDateOnly tzUTC [] (Fin 3) = Inr [] \<and>
   parseDateOnly ''next week'' = None \<and>
   buildTripDates parseDateOnly tzUTC ''next week'' (Fin 3) = Inr [] \<and>
   js_lt (Fin 0) (Fin 1) \<and>
   buildTripDates parseDateOnly tzUTC ''2024-03-30'' (Fin 0) = Inr []"
  using buildTripDates_not_configured [of "[]" parseDateOnly "Fin 3" tzUTC]
    buildTripDates_not_configured [of "''next week''" parseDateOnly "Fin 3" tzUTC]
    buildTripDates_not_configured [of "''2024-03-30''" parseDateOnly "Fin 0" tzUTC]
  by (simp add: parseDateOnly_def)

section \<open>Resynchronisation\<close>

lemma fold_syncStep_apply:
  "fold (syncStep state) ds acc d =
     (if d \<in> set ds then Some (recordOrEmpty state d) else acc d)"
  by (induction ds arbitrary: acc) (auto simp: syncStep_def)

lemma syncWithDates_apply:
  "syncWithDates state ds d = (if d \<in> set ds then Some (recordOrEmpty state d) else None)"
  by (simp add: syncWithDates_def fold_syncStep_apply)

text \<open>
  C2. \<open>syncWithDates\<close> replaces the mapping with one keyed exactly by the new date
  sequence: a date in both the old and the new key set keeps its record unchanged, a date
  only in the new sequence gets an empty record, and a date only in the old key set is
  dropped.
\<close>

theorem syncWithDates_replaces_mapping:
  "dom (syncWithDates state ds) = set ds \<and>
   (\<forall>d r. d \<in> set ds \<and> state d = Some r \<longrightarrow> syncWithDates state ds d = Some r) \<and>
   (\<forall>d. d \<in> set ds \<and> state d = None \<longrightarrow> syncWithDates state ds d = Some emptySelection) \<and>
   (\<forall>d. d \<notin> set ds \<longrightarrow> syncWithDates state ds d = None)"
proof -
  have keys: "dom (syncWithDates state ds) = set ds"
    by (auto simp: syncWithDates_apply dom_def)
  have kept: "\<forall>d r. d \<in> set ds \<and> state d = Some r \<longrightarrow> syncWithDates state ds d = Some r"
    by (simp add: syncWithDates_apply recordOrEmpty_def)
  have fresh: "\<forall>d. d \<in> set ds \<and> state d = None \<longrightarrow> syncWithDates state ds d = Some emptySelection"
    by (simp add: syncWithDates_apply recordOrEmpty_def)
  have dropped: "\<forall>d. d \<notin> set ds \<longrightarrow> syncWithDates state ds d = None"
    by (simp add: syncWithDates_apply)
  from keys kept fresh dropped show ?thesis by blast
qed

theorem syncWithDates_replaces_mapping_witness:
  "syncWithDates sampleSelections [''2024-03-02'', ''2024-03-03'', ''2024-03-04''] ''2024-03-02''
     = Some sampleRecord \<and>
   syncWithDates sampleSelections [''2024-03-02'', ''2024-03-03'', ''2024-03-04''] ''2024-03-04''
     = Some emptySelection \<and>
   syncWithDates sampleSelections [''2024-03-02'', ''2024-03-03'', ''2024-03-04''] ''2024-03-01''
     = None \<and>
   sampleSelections ''2024-03-01'' \<noteq> None"
  using syncWithDates_replaces_mapping
    [of sampleSelections "[''2024-03-02'', ''2024-03-03'', ''2024-03-04'']"]
  by (simp add: sampleSelections_def)

text \<open>
  C9. Applying \<open>syncWithDates\<close> twice in a row with the same date sequence gives the
  state the first application gave.
\<close>

theorem syncWithDates_idempotent:
  "syncWithDates (syncWithDates state ds) ds = syncWithDates state ds"
proof
  fix d
  show "syncWithDates (syncWithDates state ds) ds d = syncWithDates state ds d"
    by (simp add: syncWithDates_apply recordOrEmpty_def)
qed

section \<open>Meal edits\<close>

lemma updateMeal_apply:
  "updateMeal state d field mealId d' =
     (if d' = d
      then Some (setField field (if truthy_opt mealId then mealId else None) (recordOrEmpty state d))
      else state d')"
  by (simp add: updateMeal_def)

lemma getField_setField:
  "getField f (setField g v r) = (if f = g then v else getField f r)"
  by (cases f; cases g) simp_all

text \<open>
  C6. While the board type is \<open>NB\<close>, a meal edit leaves the store unchanged, for every
  prior state, date, meal field and meal id; nothing is raised.
\<close>

theorem handleMealChange_NoBoard_ignored:
  "boardType (tripConfig st) = NB \<Longrightarrow> handleMealChange st d field mealId = st"
  by (simp add: handleMealChange_def)

theorem handleMealChange_NoBoard_ignored_witness:
  "boardType (tripConfig (sampleApp NB)) = NB \<and>
   handleMealChange (sampleApp NB) ''2024-03-01'' LunchField (Some (Fin 4)) = sampleApp NB"
  using handleMealChange_NoBoard_ignored [of "sampleApp NB" "''2024-03-01''" LunchField "Some (Fin 4)"]
  by (simp add: sampleApp_def)

text \<open>
  The board rules for a truthy meal id (neither 0 nor \<open>NaN\<close>). Under \<open>HB\<close>, setting one
  meal field stores the id and forces the other meal field of that date to undefined in
  the same update, so at most one of the two is populated. Under \<open>FB\<close> a meal edit never
  changes the other field, and it stores the id, so both fields can be set independently.
\<close>

lemma handleMealChange_board_rules:
  "(boardType (tripConfig st) = HB \<and> truthy n \<longrightarrow>
      getField field (recordOrEmpty (dailySelections (handleMealChange st d field (Some n))) d) = Some n \<and>
      getField (otherField field)
        (recordOrEmpty (dailySelections (handleMealChange st d field (Some n))) d) = None) \<and>
   (boardType (tripConfig st) = FB \<longrightarrow>
      getField (otherField field) (recordOrEmpty (dailySelections (handleMealChange st d field mealId)) d)
        = getField (otherField field) (recordOrEmpty (dailySelections st) d)) \<and>
   (boardType (tripConfig st) = FB \<and> truthy n \<longrightarrow>
      getField field (recordOrEmpty (dailySelections (handleMealChange st d field (Some n))) d) = Some n)"
proof -
  have other: "otherField field \<noteq> field" by (cases field) simp_all
  have hb: "boardType (tripConfig st) = HB \<and> truthy n \<longrightarrow>
      getField field (recordOrEmpty (dailySelections (handleMealChange st d field (Some n))) d) = Some n \<and>
      getField (otherField field)
        (recordOrEmpty (dailySelections (handleMealChange st d field (Some n))) d) = None"
    using other
    by (auto simp: handleMealChange_def Let_def updateMeal_apply recordOrEmpty_def getField_setField)
  have fb_other: "boardType (tripConfig st) = FB \<longrightarrow>
      getField (otherField field) (recordOrEmpty (dailySelections (handleMealChange st d field mealId)) d)
        = getField (otherField field) (recordOrEmpty (dailySelections st) d)"
    using other
    by (auto simp: handleMealChange_def Let_def updateMeal_apply recordOrEmpty_def getField_setField)
  have fb_set: "boardType (tripConfig st) = FB \<and> truthy n \<longrightarrow>
      getField field (recordOrEmpty (dailySelections (handleMealChange st d field (Some n))) d) = Some n"
    by (auto simp: handleMealChange_def Let_def updateMeal_apply recordOrEmpty_def getField_setField)
  from hb fb_other fb_set show ?thesis by blast
qed

lemma handleMealChange_board_rules_sample:
  "boardType (tripConfig (sampleApp HB)) = HB \<and> truthy (Fin 4) \<and>
   lunchId (recordOrEmpty (dailySelections
      (handleMealChange (sampleApp HB) ''2024-03-01'' LunchField (Some (Fin 4)))) ''2024-03-01'')
     = Some (Fin 4) \<and>
   dinnerId (recordOrEmpty (dailySelections
      (handleMealChange (sampleApp HB) ''2024-03-01'' LunchField (Some (Fin 4)))) ''2024-03-01'')
     = None \<and>
   dinnerId (recordOrEmpty (dailySelections (sampleApp HB)) ''2024-03-01'') = Some (Fin 7) \<and>
   boardType (tripConfig (sampleApp FB)) = FB \<and>
   lunchId (recordOrEmpty (dailySelections
      (handleMealChange (sampleApp FB) ''2024-03-01'' LunchField (Some (Fin 4)))) ''2024-03-01'')
     = Some (Fin 4) \<and>
   dinnerId (recordOrEmpty (dailySelections
      (handleMealChange (sampleApp FB) ''2024-03-01'' LunchField (Some (Fin 4)))) ''2024-03-01'')
     = Some (Fin 7)"
  using handleMealChange_board_rules [of "sampleApp HB" "Fin 4" LunchField "''2024-03-01''" None]
    handleMealChange_board_rules [of "sampleApp FB" "Fin 4" LunchField "''2024-03-01''" "Some (Fin 4)"]
  by (simp add: sampleApp_def sampleSelections_def recordOrEmpty_def)

text \<open>
  C4. Under \<open>HB\<close>, setting one meal field to any defined meal id is to force the other
  meal field of that date to undefined, so that at most one of lunch and dinner is
  populated; under \<open>FB\<close> no such clearing occurs. The select passes the meal id 0 on as
  a defined id, as it does for every option that is not the empty one, but
  \<open>handleMealChange\<close> and \<open>updateMeal\<close> test the truthiness of the id
  (\<open>mealId && ...\<close>, \<open>!mealId\<close>): under \<open>HB\<close>, on a day with a dinner, choosing the meal 0
  for lunch leaves the dinner in place and stores no lunch, where choosing the meal 4
  stores it and clears the dinner.
\<close>

theorem handleMealChange_zero_keeps_other_meal:
  "boardType (tripConfig (sampleApp HB)) = HB \<and>
   dailySelections (sampleApp HB) ''2024-03-01''
     = Some \<lparr>hotelId = Some (Fin 101), lunchId = None, dinnerId = Some (Fin 7)\<rparr> \<and>
   dailySelections (handleMealChange (sampleApp HB) ''2024-03-01'' LunchField (Some (Fin 0)))
      ''2024-03-01''
     = Some \<lparr>hotelId = Some (Fin 101), lunchId = None, dinnerId = Some (Fin 7)\<rparr> \<and>
   dailySelections (handleMealChange (sampleApp HB) ''2024-03-01'' LunchField (Some (Fin 4)))
      ''2024-03-01''
     = Some \<lparr>hotelId = Some (Fin 101), lunchId = Some (Fin 4), dinnerId = None\<rparr>"
  by (simp add: sampleApp_def sampleSelections_def handleMealChange_def updateMeal_def
      recordOrEmpty_def)

subsection \<open>No falsy meal id is ever stored\<close>

lemma getField_emptySelection: "getField f emptySelection = None"
  by (cases f) (simp_all add: emptySelection_def)

lemma getField_hotel_update: "getField f (r\<lparr>hotelId := h\<rparr>) = getField f r"
  by (cases f) simp_all

lemma getField_clearedRecord: "getField f (clearedRecord r) = None"
  by (cases f) (simp_all add: clearedRecord_def emptySelection_def)

lemma mealsTruthy_recordOrEmpty:
  "mealsTruthy state \<Longrightarrow> getField f (recordOrEmpty state d) = Some n \<Longrightarrow> truthy n"
  by (auto simp: mealsTruthy_def recordOrEmpty_def getField_emptySelection split: option.splits)

lemma mealsTruthy_initial: "mealsTruthy initialSelections"
  by (simp add: mealsTruthy_def initialSelections_def)

lemma mealsTruthy_updateHotel: "mealsTruthy state \<Longrightarrow> mealsTruthy (updateHotel state d h)"
  unfolding mealsTruthy_def updateHotel_def
  by (auto simp: getField_hotel_update recordOrEmpty_def getField_emptySelection
      split: option.splits if_splits)

lemma mealsTruthy_updateMeal:
  assumes "mealsTruthy state"
  shows "mealsTruthy (updateMeal state d field mealId)"
  unfolding mealsTruthy_def
proof (intro allI impI)
  fix d' r f n
  assume r: "updateMeal state d field mealId d' = Some r" and n: "getField f r = Some n"
  show "truthy n"
  proof (cases "d' = d")
    case False
    with r assms n show ?thesis by (auto simp: updateMeal_apply mealsTruthy_def)
  next
    case True
    with r have r_def:
      "r = setField field (if truthy_opt mealId then mealId else None) (recordOrEmpty state d)"
      by (simp add: updateMeal_apply)
    show ?thesis
    proof (cases "f = field")
      case True
      with n r_def show ?thesis
        by (auto simp: getField_setField split: if_splits)
    next
      case False
      with n r_def have "getField f (recordOrEmpty state d) = Some n"
        by (simp add: getField_setField)
      with assms show ?thesis by (rule mealsTruthy_recordOrEmpty)
    qed
  qed
qed

lemma mealsTruthy_clearMealsStep: "mealsTruthy state \<Longrightarrow> mealsTruthy (clearMealsStep d state)"
  unfolding mealsTruthy_def clearMealsStep_def
  by (auto simp: getField_clearedRecord split: option.splits if_splits)

lemma mealsTruthy_clearMeals: "mealsTruthy state \<Longrightarrow> mealsTruthy (clearMeals state ds)"
  unfolding clearMeals_def
  by (induction ds arbitrary: state) (simp_all add: mealsTruthy_clearMealsStep)

lemma mealsTruthy_syncWithDates: "mealsTruthy state \<Longrightarrow> mealsTruthy (syncWithDates state ds)"
  unfolding mealsTruthy_def
  by (auto simp: syncWithDates_apply recordOrEmpty_def getField_emptySelection
      split: if_splits option.splits)

lemma mealsTruthy_reducer: "mealsTruthy state \<Longrightarrow> mealsTruthy (dailySelectionsReducer state a)"
  by (cases a)
    (simp_all add: mealsTruthy_updateHotel mealsTruthy_updateMeal mealsTruthy_clearMeals
      mealsTruthy_syncWithDates)

lemma mealsTruthy_foldl:
  "mealsTruthy state \<Longrightarrow> mealsTruthy (foldl dailySelectionsReducer state actions)"
  by (induction actions arbitrary: state) (simp_all add: mealsTruthy_reducer)

lemma mealsTruthy_dispatchAll: "mealsTruthy (dispatchAll actions)"
  unfolding dispatchAll_def by (rule mealsTruthy_foldl [OF mealsTruthy_initial])

text \<open>
  C10. For every date and meal field, \<open>updateMeal\<close> with meal id 0 does what clearing
  does: the field is removed from the record, not set to 0, because the reducer tests the
  falsiness of the id. Hence no sequence of actions, dispatched from the initial store,
  leaves a record whose lunch or dinner is the id 0.
\<close>

theorem updateMeal_zero_clears:
  "updateMeal state d field (Some (Fin 0)) = updateMeal state d field None \<and>
   getField field (recordOrEmpty (updateMeal state d field (Some (Fin 0))) d) = None \<and>
   (\<forall>d' r f. dispatchAll actions d' = Some r \<longrightarrow> getField f r \<noteq> Some (Fin 0))"
proof -
  have same: "updateMeal state d field (Some (Fin 0)) = updateMeal state d field None"
    by (simp add: updateMeal_def)
  have removed: "getField field (recordOrEmpty (updateMeal state d field (Some (Fin 0))) d) = None"
    by (simp add: updateMeal_apply recordOrEmpty_def getField_setField)
  have never: "\<forall>d' r f. dispatchAll actions d' = Some r \<longrightarrow> getField f r \<noteq> Some (Fin 0)"
  proof (intro allI impI notI)
    fix d' r f
    assume "dispatchAll actions d' = Some r" and "getField f r = Some (Fin 0)"
    with mealsTruthy_dispatchAll [of actions] have "truthy (Fin 0)"
      unfolding mealsTruthy_def by blast
    then show False by simp
  qed
  from same removed never show ?thesis by blast
qed

theorem updateMeal_zero_clears_witness:
  "dispatchAll [UpdateMeal ''2024-03-01'' DinnerField (Some (Fin 7)),
                UpdateMeal ''2024-03-01'' LunchField (Some (Fin 0))] ''2024-03-01''
     = Some \<lparr>hotelId = None, lunchId = None, dinnerId = Some (Fin 7)\<rparr> \<and>
   getField LunchField \<lparr>hotelId = None, lunchId = None, dinnerId = Some (Fin 7)\<rparr> \<noteq> Some (Fin 0)"
  using updateMeal_zero_clears
    [of Map.empty "''2024-03-01''" LunchField
        "[UpdateMeal ''2024-03-01'' DinnerField (Some (Fin 7)),
          UpdateMeal ''2024-03-01'' LunchField (Some (Fin 0))]"]
  by (simp add: dispatchAll_def initialSelections_def updateMeal_def recordOrEmpty_def
      emptySelection_def)

section \<open>Changing the board type\<close>

lemma clearedRecord_idem: "clearedRecord (clearedRecord r) = clearedRecord r"
  by (simp add: clearedRecord_def emptySelection_def)

lemma fold_clearMealsStep_apply:
  "fold clearMealsStep ds state d =
     (if d \<in> set ds then map_option clearedRecord (state d) else state d)"
proof (induction ds arbitrary: state)
  case Nil
  then show ?case by simp
next
  case (Cons a ds)
  have step: "clearMealsStep a state x =
      (if x = a then map_option clearedRecord (state x) else state x)" for x
    by (simp add: clearMealsStep_def split: option.splits)
  show ?case
    by (simp add: Cons.IH step option.map_comp comp_def clearedRecord_idem)
qed

text \<open>Selecting the board type that is already active changes nothing.\<close>

lemma handleBoardChange_same_board:
  "handleBoardChange st ds (boardType (tripConfig st)) = st"
  by (simp add: handleBoardChange_def)

text \<open>
  A change to \<open>NB\<close> from another board type clears lunch and dinner of every current
  date that has a record, and keeps the hotel id when it is truthy.
\<close>

lemma handleBoardChange_NoBoard:
  assumes "boardType (tripConfig st) \<noteq> NB" and "d \<in> set ds"
    and "dailySelections st d = Some r"
  shows "\<exists>r'. dailySelections (handleBoardChange st ds NB) d = Some r' \<and>
          lunchId r' = None \<and> dinnerId r' = None \<and>
          (truthy_opt (hotelId r) \<longrightarrow> hotelId r' = hotelId r)"
  using assms
  by (auto simp: handleBoardChange_def Let_def clearMeals_def fold_clearMealsStep_apply
      clearedRecord_def emptySelection_def)

text \<open>
  C3. Changing the board type to \<open>NB\<close> from another board type is to clear lunch and
  dinner of every current date while preserving each date's hotel id, and selecting the
  active board type is to change nothing. \<open>updateHotel\<close> stores the hotel id 0 like any
  other id, but \<open>clearMeals\<close> keeps the hotel id only when it is truthy: with the hotel 0
  chosen for a day, the change from \<open>FB\<close> to \<open>NB\<close> leaves that day without a hotel.
\<close>

theorem handleBoardChange_drops_hotel_zero:
  "boardType (tripConfig hotelZeroApp) = FB \<and>
   dailySelections (handleHotelChange (sampleApp FB) ''2024-03-01'' (Some (Fin 0))) ''2024-03-01''
     = Some \<lparr>hotelId = Some (Fin 0), lunchId = None, dinnerId = Some (Fin 7)\<rparr> \<and>
   hotelId (recordOrEmpty (dailySelections hotelZeroApp) ''2024-03-01'') = Some (Fin 0) \<and>
   dailySelections (handleBoardChange hotelZeroApp [''2024-03-01''] NB) ''2024-03-01''
     = Some \<lparr>hotelId = None, lunchId = None, dinnerId = None\<rparr>"
  by (simp add: hotelZeroApp_def sampleApp_def sampleSelections_def sampleConfig_def
      handleBoardChange_def handleHotelChange_def updateHotel_def updateBoardType_def
      clearMeals_def clearMealsStep_def clearedRecord_def recordOrEmpty_def emptySelection_def)

section \<open>The days field\<close>

text \<open>
  C5, as stated: the stored days field is never below 1 after an update. The input
  handler replaces only falsy numbers, so the number -5 is stored as it is, and so is
  the fraction 5/2, which is not an integer.
\<close>

theorem daysInputChanged_negative_counterexample:
  "days (daysInputChanged sampleConfig (Fin (-5))) = Fin (-5) \<and>
   js_lt (days (daysInputChanged sampleConfig (Fin (-5)))) (Fin 1) \<and>
   days (daysInputChanged sampleConfig (Fin (5 / 2))) = Fin (5 / 2)"
  by (simp add: daysInputChanged_def)

text \<open>
  C5, amended. Updating the days field converts the input to a number, not to an
  integer. The input handler stores 1 when that number is \<open>NaN\<close> or 0 and the number
  itself otherwise, so the stored value is never \<open>NaN\<close> and never 0; the reducer stores
  the number it is given.
\<close>

theorem daysInputChanged_fallback:
  "days (daysInputChanged state n) = (if truthy n then n else Fin 1) \<and>
   truthy (days (daysInputChanged state n)) \<and>
   days (updateConfig state (Days n)) = n"
  by (simp add: daysInputChanged_def)

section \<open>The addition of numbers rounds to the nearest value\<close>

subsection \<open>Rounding to an integer\<close>

lemma roundHalfEven_of_int: "roundHalfEven (of_int k) = k"
  by (simp add: roundHalfEven_def)

lemma roundHalfEven_nonneg: "0 \<le> x \<Longrightarrow> 0 \<le> roundHalfEven x"
  by (simp add: roundHalfEven_def Let_def)

lemma roundHalfEven_floor: "\<lfloor>x\<rfloor> \<le> roundHalfEven x \<and> roundHalfEven x \<le> \<lfloor>x\<rfloor> + 1"
  by (simp add: roundHalfEven_def Let_def)

text \<open>No integer is nearer to \<open>x\<close> than \<open>roundHalfEven x\<close>.\<close>

lemma roundHalfEven_nearest: "\<bar>of_int (roundHalfEven x) - x\<bar> \<le> \<bar>of_int k - x\<bar>"
proof -
  define f where "f = \<lfloor>x\<rfloor>"
  have lo: "of_int f \<le> x" and hi: "x < of_int f + 1"
    unfolding f_def by linarith+
  have r: "roundHalfEven x = f \<and> x - of_int f \<le> 1 / 2 \<or>
           roundHalfEven x = f + 1 \<and> 1 / 2 \<le> x - of_int f"
    unfolding roundHalfEven_def f_def [symmetric] Let_def by auto
  consider "k \<le> f" | "f + 1 \<le> k" by linarith
  then show ?thesis
  proof cases
    case 1
    then have "(of_int k :: rat) \<le> of_int f" by simp
    with lo hi r show ?thesis by auto
  next
    case 2
    then have "(of_int f :: rat) + 1 \<le> of_int k"
      by (metis of_int_1 of_int_add of_int_le_iff)
    with lo hi r show ?thesis by auto
  qed
qed

lemma roundHalfEven_half: "\<bar>of_int (roundHalfEven x) - x\<bar> \<le> 1 / 2"
proof -
  define f where "f = \<lfloor>x\<rfloor>"
  have lo: "of_int f \<le> x" and hi: "x < of_int f + 1"
    unfolding f_def by linarith+
  have "roundHalfEven x = f \<and> x - of_int f \<le> 1 / 2 \<or>
        roundHalfEven x = f + 1 \<and> 1 / 2 \<le> x - of_int f"
    unfolding roundHalfEven_def f_def [symmetric] Let_def by auto
  with lo hi show ?thesis by auto
qed

subsection \<open>Powers of two\<close>

lemma powi_mono: "m \<le> n \<Longrightarrow> (2::rat) powi m \<le> 2 powi n"
  by (rule power_int_increasing) simp_all

lemma powi_less_cancel: "(2::rat) powi m < 2 powi n \<Longrightarrow> m < n"
  using powi_mono [of n m] by (cases "m < n") auto

lemma powi_pos: "(0::rat) < 2 powi n"
  by (simp add: zero_less_power_int)

lemma powi_split: "q \<le> e \<Longrightarrow> (2::rat) powi e = of_int (2 ^ nat (e - q)) * 2 powi q"
proof -
  assume "q \<le> e"
  then have "(2::rat) powi e = 2 powi (int (nat (e - q)) + q)" by simp
  also have "\<dots> = 2 powi int (nat (e - q)) * 2 powi q"
    by (rule power_int_add) simp
  also have "(2::rat) powi int (nat (e - q)) = of_int (2 ^ nat (e - q))"
    by (simp add: power_int_def)
  finally show ?thesis .
qed

lemma bitlen_powi:
  assumes "0 < a"
  shows "(2::rat) powi (bitlen a - 1) \<le> of_int a" and "of_int a < (2::rat) powi bitlen a"
proof -
  from bitlen_bounds [OF assms]
  have lo: "2 ^ nat (bitlen a - 1) \<le> a" and hi: "a < 2 ^ nat (bitlen a)" by simp_all
  from assms have pos: "1 \<le> bitlen a"
    using bitlen_eq_zero_iff [of a] bitlen_nonneg [of a] by linarith
  have "(2::rat) powi (bitlen a - 1) = of_int (2 ^ nat (bitlen a - 1))"
    using pos by (simp add: power_int_def)
  also have "\<dots> \<le> of_int a" using lo by (simp only: of_int_le_iff)
  finally show "(2::rat) powi (bitlen a - 1) \<le> of_int a" .
  have "(of_int a :: rat) < of_int (2 ^ nat (bitlen a))" using hi by (simp only: of_int_less_iff)
  also have "\<dots> = 2 powi bitlen a"
    using pos by (simp add: power_int_def)
  finally show "of_int a < (2::rat) powi bitlen a" .
qed

text \<open>\<open>floorLog2 r\<close> is the exponent of the power of two at or below \<open>r\<close>.\<close>

lemma floorLog2_bounds:
  assumes "0 < r"
  shows "2 powi floorLog2 r \<le> r" and "r < 2 powi (floorLog2 r + 1)"
proof -
  obtain a b where q: "quotient_of r = (a, b)" by (cases "quotient_of r")
  have b: "0 < b" using quotient_of_denom_pos [OF q] .
  have r: "r = of_int a / of_int b" using quotient_of_div [OF q] .
  have a: "0 < a" using assms b unfolding r by (simp add: zero_less_divide_iff)
  define e where "e = bitlen a - bitlen b"
  note A = bitlen_powi [OF a] and B = bitlen_powi [OF b]
  have bpos: "(0::rat) < of_int b" using b by simp
  have "r * 2 powi (bitlen b - 1) \<le> r * of_int b"
    using B(1) assms by (simp add: mult_left_mono)
  also have "\<dots> = of_int a" using bpos unfolding r by simp
  also have "\<dots> < 2 powi bitlen a" by (rule A(2))
  finally have "r * 2 powi (bitlen b - 1) < 2 powi bitlen a" .
  then have "r < 2 powi bitlen a / 2 powi (bitlen b - 1)"
    by (simp add: pos_less_divide_eq)
  also have "\<dots> = 2 powi (e + 1)"
    unfolding e_def by (simp add: power_int_diff [symmetric] algebra_simps)
  finally have up: "r < 2 powi (e + 1)" .
  have "2 powi (bitlen a - 1) \<le> (of_int a :: rat)" by (rule A(1))
  also have "\<dots> = r * of_int b" using bpos unfolding r by simp
  also have "\<dots> < r * 2 powi bitlen b"
    using B(2) assms by (simp add: mult_strict_left_mono)
  finally have "2 powi (bitlen a - 1) / 2 powi bitlen b < r"
    by (simp add: pos_divide_less_eq)
  moreover have "(2::rat) powi (bitlen a - 1) / 2 powi bitlen b = 2 powi (e - 1)"
    unfolding e_def by (simp add: power_int_diff [symmetric] algebra_simps)
  ultimately have low: "2 powi (e - 1) < r" by simp
  have fl: "floorLog2 r = (if 2 powi e \<le> r then e else e - 1)"
    unfolding floorLog2_def q e_def by (simp add: Let_def)
  show "2 powi floorLog2 r \<le> r" using low unfolding fl by auto
  show "r < 2 powi (floorLog2 r + 1)" using up unfolding fl by auto
qed

lemma floorLog2_eq:
  assumes "2 powi e \<le> r" and "r < 2 powi (e + 1)"
  shows "floorLog2 r = e"
proof -
  have pos: "0 < r" by (rule less_le_trans [OF powi_pos assms(1)])
  from floorLog2_bounds(1) [OF pos] assms(2) have "(2::rat) powi floorLog2 r < 2 powi (e + 1)"
    by simp
  then have "floorLog2 r < e + 1" by (rule powi_less_cancel)
  moreover from floorLog2_bounds(2) [OF pos] assms(1)
  have "(2::rat) powi e < 2 powi (floorLog2 r + 1)" by simp
  then have "e < floorLog2 r + 1" by (rule powi_less_cancel)
  ultimately show ?thesis by simp
qed

subsection \<open>The Number value for a rational\<close>

lemma NumberValue_unfold:
  assumes "r \<noteq> 0"
  defines "q \<equiv> max (floorLog2 \<bar>r\<bar> - 52) (- 1074)"
  defines "v \<equiv> (of_int (roundHalfEven (\<bar>r\<bar> / 2 powi q)) * 2 powi q :: rat)"
  shows "NumberValue r = (if 2 ^ 1024 \<le> v then (if 0 < r then PosInf else NegInf)
                          else Fin (if 0 < r then v else - v))"
  using assms(1) unfolding NumberValue_def q_def v_def by (simp add: Let_def)

lemma NumberValue_nonneg:
  assumes "0 \<le> r"
  shows "NumberValue r \<noteq> NaN \<and> \<not> js_lt (NumberValue r) (Fin 0)"
proof (cases "r = 0")
  case True
  then show ?thesis by (simp add: NumberValue_def)
next
  case False
  with assms have pos: "0 < r" by simp
  define q where "q = max (floorLog2 \<bar>r\<bar> - 52) (- 1074)"
  define v :: rat where "v = of_int (roundHalfEven (\<bar>r\<bar> / 2 powi q)) * 2 powi q"
  have "0 \<le> \<bar>r\<bar> / 2 powi q" using powi_pos [of q] by simp
  then have "0 \<le> roundHalfEven (\<bar>r\<bar> / 2 powi q)" by (rule roundHalfEven_nonneg)
  then have v: "0 \<le> v" unfolding v_def using powi_pos [of q] by simp
  have "NumberValue r = (if 2 ^ 1024 \<le> v then PosInf else Fin v)"
    using NumberValue_unfold [OF False] pos unfolding q_def v_def by simp
  with v show ?thesis by simp
qed

text \<open>A value of double precision is its own Number value.\<close>

lemma NumberValue_exact:
  assumes m: "\<bar>m\<bar> < 2 ^ 53" and lo: "- 1074 \<le> e" and hi: "e \<le> 971"
  shows "NumberValue (of_int m * 2 powi e) = Fin (of_int m * 2 powi e)"
proof (cases "m = 0")
  case True
  then show ?thesis by (simp add: NumberValue_def)
next
  case False
  define r :: rat where "r = of_int m * 2 powi e"
  define a where "a = \<bar>r\<bar>"
  define q where "q = max (floorLog2 a - 52) (- 1074)"
  have r0: "r \<noteq> 0" unfolding r_def using False powi_pos [of e] by simp
  have a: "a = of_int \<bar>m\<bar> * 2 powi e"
    unfolding a_def r_def using powi_pos [of e] by (simp add: abs_mult)
  have apos: "0 < a" unfolding a_def using r0 by simp
  have "(of_int \<bar>m\<bar> :: rat) < of_int (2 ^ 53)" using m by (simp only: of_int_less_iff)
  then have "a < of_int (2 ^ 53) * 2 powi e"
    unfolding a using powi_pos [of e] by (simp only: mult_strict_right_mono)
  also have "\<dots> = 2 powi (e + 53)" using powi_split [of e "e + 53"] by simp
  finally have abound: "a < 2 powi (e + 53)" .
  from floorLog2_bounds(1) [OF apos] abound have "(2::rat) powi floorLog2 a < 2 powi (e + 53)"
    by simp
  then have "floorLog2 a < e + 53" by (rule powi_less_cancel)
  with lo have qe: "q \<le> e" unfolding q_def by simp
  have "a / 2 powi q = of_int \<bar>m\<bar> * of_int (2 ^ nat (e - q))"
    unfolding a using powi_split [OF qe] powi_pos [of q] by simp
  also have "\<dots> = of_int (\<bar>m\<bar> * 2 ^ nat (e - q))" by simp
  finally have x: "a / 2 powi q = of_int (\<bar>m\<bar> * 2 ^ nat (e - q))" .
  have "of_int (roundHalfEven (a / 2 powi q)) * 2 powi q = a / 2 powi q * 2 powi q"
    unfolding x roundHalfEven_of_int ..
  also have "\<dots> = a" using powi_pos [of q] by simp
  finally have v: "of_int (roundHalfEven (a / 2 powi q)) * 2 powi q = a" .
  have "a < 2 powi (e + 53)" by (rule abound)
  also have "\<dots> \<le> 2 powi 1024" using hi by (intro powi_mono) simp
  also have "(2::rat) powi 1024 = 2 ^ 1024" by (simp add: power_int_def)
  finally have small: "\<not> 2 ^ 1024 \<le> a" by simp
  have "NumberValue r = Fin (if 0 < r then a else - a)"
    using NumberValue_unfold [OF r0] small unfolding a_def [symmetric] q_def [symmetric] v
    by simp
  also have "(if 0 < r then a else - a) = r" unfolding a_def by simp
  finally show ?thesis unfolding r_def .
qed

lemma NumberValue_whole: "\<bar>k\<bar> < 2 ^ 53 \<Longrightarrow> NumberValue (of_int k) = Fin (of_int k)"
  using NumberValue_exact [of k 0] by simp

text \<open>A finite Number value is a value of double precision.\<close>

lemma NumberValue_representable:
  assumes res: "NumberValue r = Fin v"
  shows "\<exists>m e. v = of_int m * 2 powi e \<and> \<bar>m\<bar> < 2 ^ 53 \<and> - 1074 \<le> e \<and> e \<le> 971"
proof (cases "r = 0")
  case True
  with res have "v = of_int 0 * 2 powi 0" by (simp add: NumberValue_def)
  then show ?thesis by (intro exI [of _ 0] exI [of _ "0::int"]) simp
next
  case r0: False
  define a where "a = \<bar>r\<bar>"
  define q where "q = max (floorLog2 a - 52) (- 1074)"
  define x where "x = a / 2 powi q"
  define n where "n = roundHalfEven x"
  define w :: rat where "w = of_int n * 2 powi q"
  define s :: int where "s = (if 0 < r then 1 else - 1)"
  have apos: "0 < a" unfolding a_def using r0 by simp
  have qpos: "(0::rat) < 2 powi q" by (rule powi_pos)
  have "NumberValue r = (if 2 ^ 1024 \<le> w then (if 0 < r then PosInf else NegInf)
                          else Fin (if 0 < r then w else - w))"
    using NumberValue_unfold [OF r0]
    unfolding a_def [symmetric] q_def [symmetric] x_def [symmetric] n_def [symmetric] w_def .
  with res have v: "v = (if 0 < r then w else - w)" and small: "w < 2 ^ 1024"
    by (auto split: if_splits)
  have vs: "v = of_int (s * n) * 2 powi q" unfolding v w_def s_def by simp
  have small': "w < 2 powi 1024" using small by (simp add: power_int_def)
  have q_lo: "- 1074 \<le> q" unfolding q_def by simp
  have q_ge: "floorLog2 a - 52 \<le> q" unfolding q_def by simp
  have xpos: "0 \<le> x" unfolding x_def using apos qpos by simp
  have n0: "0 \<le> n" unfolding n_def using xpos by (rule roundHalfEven_nonneg)
  have "a < 2 powi (floorLog2 a + 1)" by (rule floorLog2_bounds(2) [OF apos])
  also have "\<dots> \<le> 2 powi (q + 53)" using q_ge by (intro powi_mono) simp
  also have "\<dots> = of_int (2 ^ 53) * 2 powi q" using powi_split [of q "q + 53"] by simp
  finally have "x < of_int (2 ^ 53)" unfolding x_def using qpos by (simp add: pos_divide_less_eq)
  then have "\<lfloor>x\<rfloor> < 2 ^ 53" by (simp only: floor_less_iff)
  with roundHalfEven_floor [of x] have n_hi: "n \<le> 2 ^ 53" unfolding n_def by linarith
  show ?thesis
  proof (cases "n = 0")
    case True
    then have "v = of_int 0 * 2 powi 0" unfolding vs by simp
    then show ?thesis by (intro exI [of _ 0] exI [of _ "0::int"]) simp
  next
    case npos: False
    show ?thesis
    proof (cases "n = 2 ^ 53")
      case True
      have "w = 2 powi (q + 53)" unfolding w_def True using powi_split [of q "q + 53"] by simp
      with small' have "q + 53 < 1024" by (simp add: powi_less_cancel)
      then have e: "q + 1 \<le> 971" by simp
      have "(2::rat) powi (q + 1) = 2 * 2 powi q" using powi_split [of q "q + 1"] by simp
      then have "v = of_int (s * 2 ^ 52) * 2 powi (q + 1)" unfolding vs True by simp
      moreover have "\<bar>s * 2 ^ 52\<bar> < (2 ^ 53 :: int)" unfolding s_def by simp
      ultimately show ?thesis using e q_lo
        by (intro exI [of _ "s * 2 ^ 52"] exI [of _ "q + 1"]) simp
    next
      case False
      with n_hi have n_lt: "n < 2 ^ 53" by simp
      have q_hi: "q \<le> 971"
      proof (cases "q = - 1074")
        case True
        then show ?thesis by simp
      next
        case False
        with q_lo q_ge have q: "q = floorLog2 a - 52" unfolding q_def by simp
        have "2 powi floorLog2 a \<le> a" by (rule floorLog2_bounds(1) [OF apos])
        moreover have "(2::rat) powi floorLog2 a = of_int (2 ^ 52) * 2 powi q"
          using powi_split [of q "floorLog2 a"] unfolding q by simp
        ultimately have "of_int (2 ^ 52) \<le> x" unfolding x_def using qpos
          by (simp add: pos_le_divide_eq)
        then have "2 ^ 52 \<le> \<lfloor>x\<rfloor>" by (simp only: le_floor_iff)
        with roundHalfEven_floor [of x] have "2 ^ 52 \<le> n" unfolding n_def by linarith
        then have "(of_int (2 ^ 52) :: rat) \<le> of_int n" by (simp only: of_int_le_iff)
        then have "of_int (2 ^ 52) * 2 powi q \<le> w" unfolding w_def using qpos
          by (simp only: mult_right_mono less_imp_le)
        moreover have "of_int (2 ^ 52) * 2 powi q = (2::rat) powi (q + 52)"
          using powi_split [of q "q + 52"] by simp
        ultimately have "(2::rat) powi (q + 52) < 2 powi 1024" using small' by simp
        then have "q + 52 < 1024" by (rule powi_less_cancel)
        then show ?thesis by simp
      qed
      have "\<bar>s * n\<bar> < 2 ^ 53" using n_lt n0 unfolding s_def by simp
      with vs q_lo q_hi show ?thesis
        by (intro exI [of _ "s * n"] exI [of _ q]) simp
    qed
  qed
qed

text \<open>No value of double precision is nearer to \<open>r\<close> than the Number value for \<open>r\<close>.\<close>

lemma NumberValue_nearest:
  assumes res: "NumberValue r = Fin v" and m: "\<bar>m\<bar> < 2 ^ 53" and lo: "- 1074 \<le> e"
  shows "\<bar>v - r\<bar> \<le> \<bar>of_int m * 2 powi e - r\<bar>"
proof (cases "r = 0")
  case True
  with res show ?thesis by (simp add: NumberValue_def)
next
  case r0: False
  define a where "a = \<bar>r\<bar>"
  define q where "q = max (floorLog2 a - 52) (- 1074)"
  define x where "x = a / 2 powi q"
  define n where "n = roundHalfEven x"
  define w :: rat where "w = of_int n * 2 powi q"
  define s :: int where "s = (if 0 < r then 1 else - 1)"
  define d :: rat where "d = of_int (s * m) * 2 powi e"
  have apos: "0 < a" unfolding a_def using r0 by simp
  have qpos: "(0::rat) < 2 powi q" by (rule powi_pos)
  have ax: "a = x * 2 powi q" unfolding x_def using qpos by simp
  have "NumberValue r = (if 2 ^ 1024 \<le> w then (if 0 < r then PosInf else NegInf)
                          else Fin (if 0 < r then w else - w))"
    using NumberValue_unfold [OF r0]
    unfolding a_def [symmetric] q_def [symmetric] x_def [symmetric] n_def [symmetric] w_def .
  with res have v: "v = (if 0 < r then w else - w)" by (auto split: if_splits)
  have left: "\<bar>v - r\<bar> = \<bar>w - a\<bar>" unfolding v a_def using r0 by auto
  have right: "\<bar>of_int m * 2 powi e - r\<bar> = \<bar>d - a\<bar>"
    unfolding d_def a_def s_def using r0 by (auto simp: algebra_simps)
  have sm: "\<bar>s * m\<bar> < 2 ^ 53" using m unfolding s_def by (simp add: abs_mult)
  have near: "\<bar>w - a\<bar> \<le> \<bar>of_int k * 2 powi q - a\<bar>" for k
  proof -
    have "\<bar>w - a\<bar> = \<bar>of_int n - x\<bar> * 2 powi q"
      unfolding w_def ax using qpos by (simp add: abs_mult left_diff_distrib [symmetric])
    also have "\<dots> \<le> \<bar>of_int k - x\<bar> * 2 powi q"
      unfolding n_def using roundHalfEven_nearest [of x k] qpos
      by (simp only: mult_right_mono less_imp_le)
    also have "\<dots> = \<bar>of_int k * 2 powi q - a\<bar>"
      unfolding ax using qpos by (simp add: abs_mult left_diff_distrib [symmetric])
    finally show ?thesis .
  qed
  have "\<bar>w - a\<bar> \<le> \<bar>d - a\<bar>"
  proof (cases "q \<le> e")
    case True
    have "d = of_int (s * m * 2 ^ nat (e - q)) * 2 powi q"
      unfolding d_def using powi_split [OF True] by simp
    with near [of "s * m * 2 ^ nat (e - q)"] show ?thesis by simp
  next
    case False
    then have eq: "e + 1 \<le> q" by simp
    with lo have q: "q = floorLog2 a - 52" unfolding q_def by simp
    have "d \<le> \<bar>d\<bar>" by simp
    also have "\<bar>d\<bar> = of_int \<bar>s * m\<bar> * 2 powi e"
      unfolding d_def using powi_pos [of e] by (simp add: abs_mult)
    also have "\<dots> < of_int (2 ^ 53) * 2 powi e"
      using sm powi_pos [of e] by (simp only: mult_strict_right_mono of_int_less_iff)
    also have "\<dots> = 2 powi (e + 53)" using powi_split [of e "e + 53"] by simp
    also have "\<dots> \<le> 2 powi floorLog2 a" using eq unfolding q by (intro powi_mono) simp
    finally have dlow: "d < 2 powi floorLog2 a" .
    have top: "2 powi floorLog2 a \<le> a" by (rule floorLog2_bounds(1) [OF apos])
    have "(2::rat) powi floorLog2 a = of_int (2 ^ 52) * 2 powi q"
      using powi_split [of q "floorLog2 a"] unfolding q by simp
    with near [of "2 ^ 52"] have "\<bar>w - a\<bar> \<le> \<bar>2 powi floorLog2 a - a\<bar>" by simp
    with dlow top show ?thesis by simp
  qed
  with left right show ?thesis by simp
qed

text \<open>The Number value is infinite only from \<open>2^1024 - 2^970\<close> on.\<close>

lemma NumberValue_PosInf:
  assumes res: "NumberValue r = PosInf"
  shows "2 ^ 1024 - 2 ^ 970 \<le> r"
proof -
  from res have r0: "r \<noteq> 0" by (auto simp: NumberValue_def)
  define q where "q = max (floorLog2 \<bar>r\<bar> - 52) (- 1074)"
  define x where "x = \<bar>r\<bar> / 2 powi q"
  define w :: rat where "w = of_int (roundHalfEven x) * 2 powi q"
  have qpos: "(0::rat) < 2 powi q" by (rule powi_pos)
  have "NumberValue r = (if 2 ^ 1024 \<le> w then (if 0 < r then PosInf else NegInf)
                          else Fin (if 0 < r then w else - w))"
    using NumberValue_unfold [OF r0] unfolding q_def [symmetric] x_def [symmetric] w_def .
  with res have big: "2 ^ 1024 \<le> w" and pos: "0 < r" by (auto split: if_splits)
  have ax: "r = x * 2 powi q" unfolding x_def using qpos pos by simp
  show ?thesis
  proof (cases "1024 \<le> floorLog2 r")
    case True
    then have "(2::rat) powi 1024 \<le> 2 powi floorLog2 r" by (rule powi_mono)
    also have "\<dots> \<le> r" by (rule floorLog2_bounds(1) [OF pos])
    finally show ?thesis by (simp add: power_int_def)
  next
    case False
    with pos have "q \<le> 971" unfolding q_def by simp
    then have "(2::rat) powi q \<le> 2 powi 971" by (rule powi_mono)
    then have ulp: "(2::rat) powi q \<le> 2 ^ 971" by (simp add: power_int_def)
    have "w - r = (of_int (roundHalfEven x) - x) * 2 powi q"
      unfolding w_def ax [symmetric] by (simp add: left_diff_distrib ax [symmetric])
    also have "\<dots> \<le> \<bar>of_int (roundHalfEven x) - x\<bar> * 2 powi q"
      using qpos by (simp only: mult_right_mono less_imp_le abs_ge_self)
    also have "\<dots> \<le> 1 / 2 * 2 powi q"
      using roundHalfEven_half [of x] qpos by (simp only: mult_right_mono less_imp_le)
    also have "\<dots> \<le> 1 / 2 * 2 ^ 971" using ulp by simp
    finally have "w - r \<le> 2 ^ 970" by simp
    with big show ?thesis by simp
  qed
qed

subsection \<open>Sums\<close>

lemma js_add_nonneg:
  assumes "nonNegative a" and "nonNegative b"
  shows "nonNegative (js_add a b)"
proof (cases a)
  case (Fin x)
  show ?thesis
  proof (cases b)
    case b: (Fin y)
    from assms Fin b have "0 \<le> x + y" by simp
    from NumberValue_nonneg [OF this] show ?thesis unfolding Fin b by simp
  qed (use assms Fin in simp_all)
next
  case PosInf
  with assms show ?thesis by (cases b) simp_all
qed (use assms in simp_all)

text \<open>A sum that is a value of double precision is formed exactly.\<close>

lemma js_add_exact:
  assumes "a + b = of_int m * 2 powi e" and "\<bar>m\<bar> < 2 ^ 53" and "- 1074 \<le> e" and "e \<le> 971"
  shows "js_add (Fin a) (Fin b) = Fin (a + b)"
  using NumberValue_exact [OF assms(2-4)] assms(1) by simp

text \<open>Every finite sum is a nearest value of double precision.\<close>

lemma js_add_nearest:
  assumes "js_add (Fin a) (Fin b) = Fin c" and "\<bar>m\<bar> < 2 ^ 53" and "- 1074 \<le> e"
  shows "\<bar>c - (a + b)\<bar> \<le> \<bar>of_int m * 2 powi e - (a + b)\<bar>"
  using NumberValue_nearest [of "a + b" c m e] assms by simp

text \<open>Whole numbers up to \<open>2^53\<close> are added exactly.\<close>

lemma js_add_whole:
  assumes "\<bar>a + b\<bar> \<le> 2 ^ 53"
  shows "js_add (Fin (of_int a)) (Fin (of_int b)) = Fin (of_int (a + b))"
proof (cases "\<bar>a + b\<bar> < 2 ^ 53")
  case True
  have "of_int a + of_int b = (of_int (a + b) * 2 powi 0 :: rat)" by simp
  from js_add_exact [OF this True] show ?thesis by simp
next
  case False
  with assms have "a + b = 2 ^ 53 \<or> a + b = - (2 ^ 53)" by linarith
  then obtain m :: int where m: "a + b = m * 2" "\<bar>m\<bar> < 2 ^ 53"
    by (auto intro: that [of "2 ^ 52"] that [of "- (2 ^ 52)"])
  have "of_int a + of_int b = (of_int m * 2 powi 1 :: rat)"
    using m(1) by (metis of_int_add of_int_mult of_int_numeral power_int_1_right)
  from js_add_exact [OF this m(2)] show ?thesis by simp
qed

lemma foldl_js_add_whole:
  assumes "0 \<le> a" and "\<forall>k \<in> set ks. 0 \<le> k" and "a + sum_list ks \<le> 2 ^ 53"
  shows "foldl js_add (Fin (of_int a)) (map (\<lambda>k. Fin (of_int k)) ks) = Fin (of_int (a + sum_list ks))"
  using assms
proof (induction ks arbitrary: a)
  case Nil
  then show ?case by simp
next
  case (Cons k ks)
  from Cons.prems have k: "0 \<le> k" and rest: "\<forall>k \<in> set ks. 0 \<le> k" by simp_all
  from rest have "0 \<le> sum_list ks" by (simp add: sum_list_nonneg)
  with Cons.prems k have "\<bar>a + k\<bar> \<le> 2 ^ 53" by simp
  then have step: "js_add (Fin (of_int a)) (Fin (of_int k)) = Fin (of_int (a + k))"
    by (rule js_add_whole)
  have "foldl js_add (Fin (of_int (a + k))) (map (\<lambda>k. Fin (of_int k)) ks)
          = Fin (of_int (a + k + sum_list ks))"
    using Cons.prems k rest by (intro Cons.IH) simp_all
  with step show ?case by (simp add: add.assoc)
qed

lemma NumberValue_samples:
  "NumberValue 0 = Fin 0"
  "NumberValue 1 = Fin 1"
  "NumberValue 45 = Fin 45"
  "NumberValue 120 = Fin 120"
  "NumberValue 165 = Fin 165"
  using NumberValue_whole [of 0] NumberValue_whole [of 1] NumberValue_whole [of 45]
    NumberValue_whole [of 120] NumberValue_whole [of 165]
  by simp_all

lemma NumberValue_2_53: "NumberValue 9007199254740992 = Fin 9007199254740992"
  using NumberValue_exact [of 4503599627370496 1] by simp

text \<open>\<open>2^53 + 1\<close> lies halfway between two values; the even one is \<open>2^53\<close>.\<close>

lemma NumberValue_2_53_1: "NumberValue 9007199254740993 = Fin 9007199254740992"
proof -
  have fl: "floorLog2 9007199254740993 = 53"
    by (rule floorLog2_eq) (simp_all add: power_int_def)
  have half: "\<lfloor>9007199254740993 / 2 :: rat\<rfloor> = 4503599627370496"
    by (rule floor_unique) simp_all
  show ?thesis
    by (simp add: NumberValue_def fl half roundHalfEven_def Let_def power_int_def)
qed

section \<open>Pricing\<close>

lemma findItem_resolvesTo: "resolvesTo items sel (findItem items sel)"
  by (auto simp: resolvesTo_def findItem_def find_None_iff find_Some_iff split: option.splits)

lemma findItem_Some_mem: "findItem items sel = Some item \<Longrightarrow> item \<in> set items"
  by (auto simp: findItem_def find_Some_iff)

lemma priceOrZero_findItem_nonneg:
  "\<forall>item \<in> set items. nonNegative (price item) \<Longrightarrow> nonNegative (priceOrZero (findItem items sel))"
  by (auto simp: priceOrZero_def dest: findItem_Some_mem split: option.splits)

lemma breakdownFor_lunch:
  "lunch (breakdownFor selections hotels mealOptions d) =
     findItem (lunchEntries mealOptions) (lunchId (recordOrEmpty selections d))"
  by (simp add: breakdownFor_def Let_def lunchEntries_def findItem_def split: option.splits)

lemma breakdownFor_dinner:
  "dinner (breakdownFor selections hotels mealOptions d) =
     findItem (dinnerEntries mealOptions) (dinnerId (recordOrEmpty selections d))"
  by (simp add: breakdownFor_def Let_def dinnerEntries_def findItem_def split: option.splits)

lemma breakdownFor_hotel:
  "hotel (breakdownFor selections hotels mealOptions d) =
     findItem hotels (hotelId (recordOrEmpty selections d))"
  by (simp add: breakdownFor_def Let_def)

lemma breakdownFor_date: "date (breakdownFor selections hotels mealOptions d) = d"
  by (simp add: breakdownFor_def Let_def)

lemma breakdownFor_subtotal:
  "subtotal (breakdownFor selections hotels mealOptions d) =
     js_add (js_add (priceOrZero (hotel (breakdownFor selections hotels mealOptions d)))
                    (priceOrZero (lunch (breakdownFor selections hotels mealOptions d))))
            (priceOrZero (dinner (breakdownFor selections hotels mealOptions d)))"
  by (simp add: breakdownFor_def Let_def)

lemma grandTotal_foldl: "grandTotal bd = foldl js_add (Fin 0) (map subtotal bd)"
  by (simp add: grandTotal_def foldl_map)

lemma foldl_js_add_nonneg:
  "nonNegative a \<Longrightarrow> \<forall>x \<in> set xs. nonNegative x \<Longrightarrow> nonNegative (foldl js_add a xs)"
proof (induction xs arbitrary: a)
  case Nil
  then show ?case by simp
next
  case (Cons x xs)
  from Cons.prems have "nonNegative (js_add a x)" by (intro js_add_nonneg) simp_all
  with Cons.prems show ?case by (simp add: Cons.IH)
qed

text \<open>
  With prices that are whole numbers and a total of at most \<open>2^53\<close>, the grand total is the
  exact sum of the subtotals.
\<close>

lemma grandTotal_whole:
  assumes "map subtotal bd = map (\<lambda>k. Fin (of_int k)) ks"
    and "\<forall>k \<in> set ks. 0 \<le> k" and "sum_list ks \<le> 2 ^ 53"
  shows "grandTotal bd = Fin (of_int (sum_list ks))"
  using foldl_js_add_whole [of 0 ks] assms by (simp add: grandTotal_foldl)

text \<open>
  C7. For every date sequence, store and catalog with non-negative prices: the
  breakdown has one entry per date, in order; the hotel, lunch and dinner of an entry are
  what the stored ids resolve to in the catalog (absent for an id that is unselected or
  that no catalog entry carries); each subtotal is the price of that hotel plus the price
  of that lunch plus the price of that dinner, an absent item counting 0; the grand total
  is the sum of the subtotals, and neither a subtotal nor the grand total is negative or
  \<open>NaN\<close>. The sums are sums of numbers, formed from left to right.
\<close>

theorem pricing_subtotals_and_total:
  assumes "\<forall>item \<in> set hotels \<union> set (lunchEntries mealOptions) \<union> set (dinnerEntries mealOptions).
             nonNegative (price item)"
  shows "map date (dailyBreakdown tripDates selections hotels mealOptions) = tripDates \<and>
    (\<forall>e \<in> set (dailyBreakdown tripDates selections hotels mealOptions).
       resolvesTo hotels (hotelId (recordOrEmpty selections (date e))) (hotel e) \<and>
       resolvesTo (lunchEntries mealOptions) (lunchId (recordOrEmpty selections (date e))) (lunch e) \<and>
       resolvesTo (dinnerEntries mealOptions) (dinnerId (recordOrEmpty selections (date e))) (dinner e) \<and>
       subtotal e =
         js_add (js_add (case hotel e of None \<Rightarrow> Fin 0 | Some item \<Rightarrow> price item)
                        (case lunch e of None \<Rightarrow> Fin 0 | Some item \<Rightarrow> price item))
                (case dinner e of None \<Rightarrow> Fin 0 | Some item \<Rightarrow> price item) \<and>
       nonNegative (subtotal e)) \<and>
    grandTotal (dailyBreakdown tripDates selections hotels mealOptions)
      = foldl js_add (Fin 0) (map subtotal (dailyBreakdown tripDates selections hotels mealOptions)) \<and>
    nonNegative (grandTotal (dailyBreakdown tripDates selections hotels mealOptions))"
proof -
  let ?bd = "dailyBreakdown tripDates selections hotels mealOptions"
  have dates: "map date ?bd = tripDates"
    by (simp add: dailyBreakdown_def breakdownFor_date comp_def)
  have h: "\<forall>item \<in> set hotels. nonNegative (price item)"
    and l: "\<forall>item \<in> set (lunchEntries mealOptions). nonNegative (price item)"
    and dn: "\<forall>item \<in> set (dinnerEntries mealOptions). nonNegative (price item)"
    using assms by auto
  have each:
    "resolvesTo hotels (hotelId (recordOrEmpty selections (date e))) (hotel e) \<and>
     resolvesTo (lunchEntries mealOptions) (lunchId (recordOrEmpty selections (date e))) (lunch e) \<and>
     resolvesTo (dinnerEntries mealOptions) (dinnerId (recordOrEmpty selections (date e))) (dinner e) \<and>
     subtotal e =
       js_add (js_add (case hotel e of None \<Rightarrow> Fin 0 | Some item \<Rightarrow> price item)
                      (case lunch e of None \<Rightarrow> Fin 0 | Some item \<Rightarrow> price item))
              (case dinner e of None \<Rightarrow> Fin 0 | Some item \<Rightarrow> price item) \<and>
     nonNegative (subtotal e)" if "e \<in> set ?bd" for e
  proof -
    from that obtain d where e: "e = breakdownFor selections hotels mealOptions d"
      by (auto simp: dailyBreakdown_def)
    have sub: "subtotal e = js_add (js_add (priceOrZero (hotel e)) (priceOrZero (lunch e)))
                                   (priceOrZero (dinner e))"
      unfolding e by (rule breakdownFor_subtotal)
    have nh: "nonNegative (priceOrZero (hotel e))"
      unfolding e breakdownFor_hotel by (rule priceOrZero_findItem_nonneg [OF h])
    have nl: "nonNegative (priceOrZero (lunch e))"
      unfolding e breakdownFor_lunch by (rule priceOrZero_findItem_nonneg [OF l])
    have nd: "nonNegative (priceOrZero (dinner e))"
      unfolding e breakdownFor_dinner by (rule priceOrZero_findItem_nonneg [OF dn])
    have rh: "resolvesTo hotels (hotelId (recordOrEmpty selections (date e))) (hotel e)"
      unfolding e breakdownFor_hotel breakdownFor_date by (rule findItem_resolvesTo)
    have rl: "resolvesTo (lunchEntries mealOptions) (lunchId (recordOrEmpty selections (date e))) (lunch e)"
      unfolding e breakdownFor_lunch breakdownFor_date by (rule findItem_resolvesTo)
    have rd: "resolvesTo (dinnerEntries mealOptions) (dinnerId (recordOrEmpty selections (date e))) (dinner e)"
      unfolding e breakdownFor_dinner breakdownFor_date by (rule findItem_resolvesTo)
    have "nonNegative (js_add (js_add (priceOrZero (hotel e)) (priceOrZero (lunch e)))
                              (priceOrZero (dinner e)))"
      by (intro js_add_nonneg nh nl nd)
    then have nn: "nonNegative (subtotal e)" unfolding sub .
    have prices: "subtotal e =
       js_add (js_add (case hotel e of None \<Rightarrow> Fin 0 | Some item \<Rightarrow> price item)
                      (case lunch e of None \<Rightarrow> Fin 0 | Some item \<Rightarrow> price item))
              (case dinner e of None \<Rightarrow> Fin 0 | Some item \<Rightarrow> price item)"
      unfolding sub priceOrZero_def ..
    from prices nn rh rl rd show ?thesis by blast
  qed
  have total: "grandTotal ?bd = foldl js_add (Fin 0) (map subtotal ?bd)"
    by (rule grandTotal_foldl)
  have sub_nn: "nonNegative (subtotal e)" if "e \<in> set ?bd" for e
    using each [OF that] by blast
  have nn: "nonNegative x" if "x \<in> set (map subtotal ?bd)" for x
  proof -
    from that obtain e where "e \<in> set ?bd" and "x = subtotal e" by auto
    with sub_nn [of e] show ?thesis by simp
  qed
  have "nonNegative (foldl js_add (Fin 0) (map subtotal ?bd))"
    by (rule foldl_js_add_nonneg) (use nn in simp_all)
  with total have nonneg: "nonNegative (grandTotal ?bd)" by simp
  from dates each total nonneg show ?thesis by blast
qed

theorem pricing_subtotals_and_total_witness:
  "map subtotal (dailyBreakdown [''2024-03-01'', ''2024-03-02'', ''2024-03-03'']
      pricedSelections sampleHotels (Some sampleMeals)) = [Fin 120, Fin 0, Fin 45] \<and>
   grandTotal (dailyBreakdown [''2024-03-01'', ''2024-03-02'', ''2024-03-03'']
      pricedSelections sampleHotels (Some sampleMeals)) = Fin 165 \<and>
   hotelId (recordOrEmpty pricedSelections ''2024-03-03'') = Some (Fin 999) \<and>
   hotel (breakdownFor pricedSelections sampleHotels (Some sampleMeals) ''2024-03-03'') = None \<and>
   hotel (breakdownFor pricedSelections sampleHotels (Some sampleMeals) ''2024-03-01'')
     = Some \<lparr>entry_id = Fin 101, entry_name = ''Hilton'', price = Fin 100\<rparr> \<and>
   map subtotal (dailyBreakdown [''2024-03-01'', ''2024-03-02'']
      largeSelections largeHotels (Some smallMeals)) = [Fin 9007199254740992, Fin 1] \<and>
   grandTotal (dailyBreakdown [''2024-03-01'', ''2024-03-02'']
      largeSelections largeHotels (Some smallMeals)) = Fin 9007199254740992"
  using pricing_subtotals_and_total
    [of sampleHotels "Some sampleMeals" "[''2024-03-01'', ''2024-03-02'', ''2024-03-03'']"
        pricedSelections]
    pricing_subtotals_and_total
    [of largeHotels "Some smallMeals" "[''2024-03-01'', ''2024-03-02'']" largeSelections]
  by (simp add: dailyBreakdown_def breakdownFor_def grandTotal_def pricedSelections_def
      sampleHotels_def sampleMeals_def largeSelections_def largeHotels_def smallMeals_def
      recordOrEmpty_def emptySelection_def findItem_def
      priceOrZero_def lunchEntries_def dinnerEntries_def Let_def
      NumberValue_samples NumberValue_2_53 NumberValue_2_53_1)

end
